theory Spec2Isabelle
  imports Main "HOL-Library.Char_ord" "HOL-Library.List_Lexorder" "HOL-Library.Multiset"
begin

section \<open>The cookie jar of avhttp (include/avhttp/cookie.hpp)\<close>

subsection \<open>Characters and time stamps\<close>

abbreviation TAB :: char where "TAB \<equiv> CHR 0x09"
abbreviation NL :: char where "NL \<equiv> CHR 0x0A"

text \<open>
  Modelled from the spec: \<open>boost::posix_time::ptime\<close> is a library type that is not part of
  the source file. A time stamp is either the sentinel \<open>not_a_date_time\<close> (the value of a
  default-constructed \<open>ptime\<close>: the cookie never expires) or a point in time, held here
  as the number of microseconds since the Unix epoch. The spec (4.3) orders the absent
  value as the largest one, which is what \<open>operator<\<close> of the counted time
  representation does.
\<close>

datatype ptime = At int | not_a_date_time

fun ptime_less :: "ptime \<Rightarrow> ptime \<Rightarrow> bool" where
  "ptime_less (At a) (At b) = (a < b)"
| "ptime_less (At a) not_a_date_time = True"
| "ptime_less not_a_date_time b = False"

text \<open>The other comparisons are derived from \<open>operator<\<close>, as boost's operator templates do.\<close>

definition ptime_greater :: "ptime \<Rightarrow> ptime \<Rightarrow> bool" where
  "ptime_greater a b = ptime_less b a"

definition ptime_le :: "ptime \<Rightarrow> ptime \<Rightarrow> bool" where
  "ptime_le a b = (\<not> ptime_less b a)"

text \<open>
  Modelled from the spec: \<open>detail::ptime_to_time_t\<close> is declared in a header that is not
  part of the source; the spec (4.4) calls its result the absolute Unix timestamp, that is
  whole seconds since the epoch. It is only called on a proper time stamp.
  \<open>boost::posix_time::from_time_t\<close> is the epoch plus that many seconds.
  \<open>time_t\<close> is taken unbounded here: the years a \<open>ptime\<close> can hold are far inside a
  64-bit count of seconds. The \<open>long\<close> that \<open>atol\<close> returns is bounded, see below.
\<close>

fun ptime_to_time_t :: "ptime \<Rightarrow> int" where
  "ptime_to_time_t (At us) = us div 1000000"
| "ptime_to_time_t not_a_date_time = 0"

definition from_time_t :: "int \<Rightarrow> ptime" where
  "from_time_t t = At (t * 1000000)"

subsection \<open>Records and the store\<close>

record cookie_t =
  name :: string
  value_c :: string
  domain :: string
  path :: string
  expires :: ptime
  httponly :: bool
  secure :: bool

text \<open>The constructor \<open>cookie_t()\<close>: empty strings, no expiry, both flags false.\<close>

definition cookie_t_init :: cookie_t where
  "cookie_t_init =
     \<lparr>name = [], value_c = [], domain = [], path = [],
      expires = not_a_date_time, httponly = False, secure = False\<rparr>"

record cookies =
  m_cookies :: "cookie_t list"
  m_default_domain :: string

definition cookies_init :: cookies where
  "cookies_init = \<lparr>m_cookies = [], m_default_domain = []\<rparr>"

definition push_back :: "cookie_t \<Rightarrow> cookies \<Rightarrow> cookies" where
  "push_back v s = s\<lparr>m_cookies := m_cookies s @ [v]\<rparr>"

definition size_c :: "cookies \<Rightarrow> int" where
  "size_c s = int (length (m_cookies s))"

definition clear :: "cookies \<Rightarrow> cookies" where
  "clear s = s\<lparr>m_cookies := []\<rparr>"

definition set_default_domain :: "string \<Rightarrow> cookies \<Rightarrow> cookies" where
  "set_default_domain d s = s\<lparr>m_default_domain := d\<rparr>"

text \<open>The three forms of \<open>operator()\<close> that take no raw string.\<close>

definition insert_name_value :: "string \<Rightarrow> string \<Rightarrow> cookies \<Rightarrow> cookies" where
  "insert_name_value n v s = push_back (cookie_t_init\<lparr>name := n, value_c := v\<rparr>) s"

definition insert_cookie :: "cookie_t \<Rightarrow> cookies \<Rightarrow> cookies" where
  "insert_cookie c s = push_back c s"

subsection \<open>Lookup\<close>

text \<open>\<open>find(const std::string&)\<close>: the first record with that name; \<open>None\<close> is \<open>end()\<close>.\<close>

fun find_name :: "string \<Rightarrow> cookie_t list \<Rightarrow> cookie_t option" where
  "find_name key [] = None"
| "find_name key (c # cs) = (if name c = key then Some c else find_name key cs)"

text \<open>\<open>find(const http_cookie&)\<close>: the first record with that name, domain and path.\<close>

fun find_cookie :: "cookie_t \<Rightarrow> cookie_t list \<Rightarrow> cookie_t option" where
  "find_cookie key [] = None"
| "find_cookie key (c # cs) =
     (if name c = name key \<and> domain c = domain key \<and> path c = path key then Some c
      else find_cookie key cs)"

subsection \<open>Removal by name\<close>

definition http_cookie_is_same_name :: "string \<Rightarrow> cookie_t \<Rightarrow> bool" where
  "http_cookie_is_same_name m_name cookie = (name cookie = m_name)"

text \<open>
  \<open>std::remove_if\<close>: \<open>find_if\<close> gives the first position where the predicate holds;
  from the next position on, every element the predicate rejects is assigned to the write
  position, which is always before the position read. A C++98 library copy-assigns and
  leaves the element it read as it was; a library for C++11 or later move-assigns. The
  parameter \<open>left\<close> says what the assignment leaves in the element it read:
  \<open>copy_assigned\<close> for the first, \<open>move_assigned\<close> for the second (the strings of a
  record that was moved from are empty with the usual libraries, the other members are
  copied). The vector keeps its length; the function returns the vector and the new
  logical end.
\<close>

definition copy_assigned :: "cookie_t \<Rightarrow> cookie_t" where
  "copy_assigned c = c"

definition move_assigned :: "cookie_t \<Rightarrow> cookie_t" where
  "move_assigned c = c\<lparr>name := [], value_c := [], domain := [], path := []\<rparr>"

definition find_if :: "('a \<Rightarrow> bool) \<Rightarrow> 'a list \<Rightarrow> nat" where
  "find_if pred v = length (takeWhile (\<lambda>x. \<not> pred x) v)"

function remove_if_from ::
  "('a \<Rightarrow> 'a) \<Rightarrow> ('a \<Rightarrow> bool) \<Rightarrow> 'a list \<Rightarrow> nat \<Rightarrow> nat \<Rightarrow> 'a list \<times> nat" where
  "remove_if_from left pred v result first =
     (if first < length v then
        (if \<not> pred (v ! first)
         then remove_if_from left pred (v[first := left (v ! first), result := v ! first])
                (Suc result) (Suc first)
         else remove_if_from left pred v result (Suc first))
      else (v, result))"
  by pat_completeness auto
termination
  by (relation "measure (\<lambda>(left, pred, v, result, first). length v - first)") auto

declare remove_if_from.simps [simp del]

definition remove_if :: "('a \<Rightarrow> 'a) \<Rightarrow> ('a \<Rightarrow> bool) \<Rightarrow> 'a list \<Rightarrow> 'a list \<times> nat" where
  "remove_if left pred v =
     (let first = find_if pred v
      in if first = length v then (v, first) else remove_if_from left pred v first (Suc first))"

text \<open>\<open>remove_cookie\<close> calls \<open>std::remove_if\<close> and drops the iterator it returns.\<close>

definition remove_cookie :: "(cookie_t \<Rightarrow> cookie_t) \<Rightarrow> string \<Rightarrow> cookies \<Rightarrow> cookies" where
  "remove_cookie left nm s =
     s\<lparr>m_cookies := fst (remove_if left (http_cookie_is_same_name nm) (m_cookies s))\<rparr>"

subsection \<open>The cookie file: writing\<close>

datatype system_error = no_such_file_or_directory

text \<open>\<open>f.write(buf, n)\<close> appends the first \<open>n\<close> characters of the buffer to the stream.\<close>

definition f_write :: "string \<Rightarrow> nat \<Rightarrow> string \<Rightarrow> string" where
  "f_write buf n f = f @ take n buf"

definition memo :: string where
  "memo =
     ''# Netscape HTTP Cookie File'' @ [NL] @
     ''# http://curl.haxx.se/docs/http-cookies.html'' @ [NL] @
     ''# This file was generated by libcurl! Edit at your own risk.'' @ [NL, NL]"

text \<open>\<open>oss << t\<close> in the C locale: the decimal digits, after a minus sign when negative.\<close>

definition digit_char :: "nat \<Rightarrow> char" where
  "digit_char d = ''0123456789'' ! d"

function show_nat :: "nat \<Rightarrow> string" where
  "show_nat n = (if n < 10 then [digit_char n] else show_nat (n div 10) @ [digit_char (n mod 10)])"
  by pat_completeness auto
termination
  by (relation "measure (\<lambda>n. n)") auto

declare show_nat.simps [simp del]

definition show_int :: "int \<Rightarrow> string" where
  "show_int i = (if i < 0 then CHR ''-'' # show_nat (nat (- i)) else show_nat (nat i))"

text \<open>
  The body of the loop of \<open>save_to_file\<close> for one record, write by write. The last
  call is \<open>f.write("\t\n", 1)\<close>.
\<close>

definition save_cookie :: "string \<Rightarrow> cookie_t \<Rightarrow> string \<Rightarrow> string" where
  "save_cookie default_domain cookie f0 =
     (let tmp = (if domain cookie = [] then default_domain else domain cookie);
          f1 = f_write [TAB] 1 (f_write tmp (length tmp) f0);
          tmp = (if domain cookie = [] then ''FALSE'' else ''TRUE'');
          f2 = f_write [TAB] 1 (f_write tmp (length tmp) f1);
          f3 = f_write [TAB] 1 (f_write (path cookie) (length (path cookie)) f2);
          tmp = (if secure cookie then ''TRUE'' else ''FALSE'');
          f4 = f_write [TAB] 1 (f_write tmp (length tmp) f3);
          t = (if expires cookie \<noteq> not_a_date_time then ptime_to_time_t (expires cookie) else 0);
          tmp = show_int t;
          f5 = f_write [TAB] 1 (f_write tmp (length tmp) f4);
          f6 = f_write [TAB] 1 (f_write (name cookie) (length (name cookie)) f5)
      in f_write [TAB, NL] 1 (f_write (value_c cookie) (length (value_c cookie)) f6))"

text \<open>
  \<open>save_to_file\<close>: \<open>is_open\<close> says whether the stream could be opened (by either of the
  two attempts), \<open>file_size\<close> is what \<open>fs::file_size\<close> answers. The result is the
  sequence of characters written to the stream, or the exception thrown. A stream opened
  with \<open>std::ios::out\<close> alone starts from an empty file, so that \<open>fs::file_size\<close> answers
  0 and the header comment is written; the properties below are stated at 0.
\<close>

definition save_to_file :: "bool \<Rightarrow> nat \<Rightarrow> cookies \<Rightarrow> string \<Rightarrow> system_error + string" where
  "save_to_file is_open file_size s default_domain =
     (if \<not> is_open then Inl no_such_file_or_directory
      else Inr (fold (save_cookie default_domain) (m_cookies s)
                  (if file_size = 0 then f_write memo (length memo) [] else [])))"

subsection \<open>The cookie file: reading\<close>

text \<open>
  The loop \<open>while (!f.eof()) std::getline(f, line)\<close>: one line per newline character,
  and the rest of the file (possibly empty) as the last line.
\<close>

fun getlines :: "string \<Rightarrow> string \<Rightarrow> string list" where
  "getlines cur [] = [rev cur]"
| "getlines cur (c # cs) = (if c = NL then rev cur # getlines [] cs else getlines (c # cur) cs)"

text \<open>\<open>boost::trim\<close> with the classic locale's \<open>isspace\<close>.\<close>

definition is_space :: "char \<Rightarrow> bool" where
  "is_space c = (c = CHR '' '' \<or> c = TAB \<or> c = NL \<or> c = CHR 0x0B \<or> c = CHR 0x0C \<or> c = CHR 0x0D)"

definition trim :: "string \<Rightarrow> string" where
  "trim s = rev (dropWhile is_space (rev (dropWhile is_space s)))"

text \<open>
  \<open>boost::split(split_vec, line, boost::is_any_of("\t"), boost::token_compress_on)\<close>:
  a run of tabs is one separator; a separator at the start or at the end of the line
  gives an empty first or last token. \<open>in_sep\<close> says that the last character read was a
  tab, \<open>cur\<close> is the token read so far, reversed.
\<close>

fun split_tabs :: "bool \<Rightarrow> string \<Rightarrow> string \<Rightarrow> string list" where
  "split_tabs in_sep cur [] = [rev cur]"
| "split_tabs in_sep cur (c # cs) =
     (if c = TAB then (if in_sep then split_tabs True cur cs else rev cur # split_tabs True [] cs)
      else split_tabs False (c # cur) cs)"

definition split :: "string \<Rightarrow> string list" where
  "split line = split_tabs False [] line"

text \<open>
  \<open>atol\<close>: white space, an optional sign, then the digits up to the first character
  that is none; no digit gives 0. The result is a \<open>long\<close> of \<open>long_bits\<close> bits (64 on
  Linux, 32 with Visual C++); a number outside its range gives \<open>LONG_MAX\<close> or
  \<open>LONG_MIN\<close>, as glibc and the Microsoft library do.
\<close>

definition is_digit :: "char \<Rightarrow> bool" where
  "is_digit c = (48 \<le> (of_char c :: nat) \<and> (of_char c :: nat) \<le> 57)"

fun digits_value :: "int \<Rightarrow> string \<Rightarrow> int" where
  "digits_value acc [] = acc"
| "digits_value acc (c # cs) =
     (if is_digit c then digits_value (acc * 10 + (int (of_char c) - 48)) cs else acc)"

definition LONG_MAX :: "nat \<Rightarrow> int" where
  "LONG_MAX long_bits = 2 ^ (long_bits - 1) - 1"

definition LONG_MIN :: "nat \<Rightarrow> int" where
  "LONG_MIN long_bits = - (2 ^ (long_bits - 1))"

definition atol :: "nat \<Rightarrow> string \<Rightarrow> int" where
  "atol long_bits s =
     (let number =
        (case dropWhile is_space s of
           [] \<Rightarrow> 0
         | c # cs \<Rightarrow>
             if c = CHR ''-'' then - digits_value 0 cs
             else if c = CHR ''+'' then digits_value 0 cs
             else digits_value 0 (c # cs))
      in if number < LONG_MIN long_bits then LONG_MIN long_bits
         else if LONG_MAX long_bits < number then LONG_MAX long_bits
         else number)"

text \<open>
  \<open>split_vec[i]\<close> on a \<open>std::vector\<close> checks nothing: past the end it is undefined
  behaviour, which the model keeps apart as \<open>None\<close>.
\<close>

definition at :: "'a list \<Rightarrow> nat \<Rightarrow> 'a option" where
  "at v i = (if i < length v then Some (v ! i) else None)"

text \<open>The record of one data line, the fields read in the order of the source.\<close>

definition line_cookie :: "nat \<Rightarrow> string list \<Rightarrow> cookie_t option" where
  "line_cookie long_bits split_vec =
     (case at split_vec 4 of None \<Rightarrow> None | Some f4 \<Rightarrow>
      case at split_vec 0 of None \<Rightarrow> None | Some f0 \<Rightarrow>
      case at split_vec 2 of None \<Rightarrow> None | Some f2 \<Rightarrow>
      case at split_vec 3 of None \<Rightarrow> None | Some f3 \<Rightarrow>
      case at split_vec 5 of None \<Rightarrow> None | Some f5 \<Rightarrow>
      case at split_vec 6 of None \<Rightarrow> None | Some f6 \<Rightarrow>
        Some (cookie_t_init\<lparr>domain := f0, path := f2, secure := (f3 = ''TRUE''),
                expires := from_time_t (atol long_bits f4), name := f5, value_c := f6\<rparr>))"

text \<open>
  The outcome of \<open>load_from_file\<close>: the store after the last line, the exception of a
  file that cannot be opened, or an out-of-range read of \<open>split_vec\<close>, with the store as
  it stands at that moment (every earlier line's record is already in it).
\<close>

datatype load_result = Loaded cookies | Open_failed system_error | Undefined_read cookies

fun load_lines :: "nat \<Rightarrow> string list \<Rightarrow> cookies \<Rightarrow> load_result" where
  "load_lines long_bits [] s = Loaded s"
| "load_lines long_bits (l # ls) s =
     (let line = trim l
      in if line = [] \<or> hd line = CHR ''#'' then load_lines long_bits ls s
         else (case line_cookie long_bits (split line) of
                 None \<Rightarrow> Undefined_read s
               | Some cookie \<Rightarrow> load_lines long_bits ls (push_back cookie s)))"

text \<open>The file is its content, or \<open>None\<close> when it cannot be opened.\<close>

definition load_from_file :: "nat \<Rightarrow> string option \<Rightarrow> cookies \<Rightarrow> load_result" where
  "load_from_file long_bits file s =
     (case file of
        None \<Rightarrow> Open_failed no_such_file_or_directory
      | Some content \<Rightarrow> load_lines long_bits (getlines [] content) s)"

subsection \<open>The parser of Set-Cookie strings\<close>

text \<open>
  What \<open>parse_cookie_string\<close> takes from outside the source file is a parameter of the
  model: the character classes \<open>detail::is_char\<close> and \<open>detail::is_tspecial\<close> and the
  date parser \<open>detail::parse_http_date\<close> (which answers whether it could read the date
  and what it left in the time stamp passed by reference), and whether \<open>BOOST_ASSERT\<close>
  is compiled in (it is unless \<open>NDEBUG\<close> is defined).
\<close>

record helpers =
  is_char :: "char \<Rightarrow> bool"
  is_tspecial :: "char \<Rightarrow> bool"
  parse_http_date :: "string \<Rightarrow> ptime \<Rightarrow> bool \<times> ptime"
  boost_assert_enabled :: bool

text \<open>A call either returns or ends the process in \<open>BOOST_ASSERT(0)\<close>.\<close>

datatype 'a outcome = Returned 'a | Aborted

datatype parse_state =
  cookie_name_start | cookie_name | cookie_value_start | cookie_value | cookie_bad

text \<open>
  \<open>std::map<std::string, std::string>\<close>: the entries in ascending order of their keys, a
  key at most once. \<open>tmp[k] = v\<close> replaces the value of a key that is there and puts
  a new key at its place in the order.
\<close>

fun map_assign :: "string \<Rightarrow> string \<Rightarrow> (string \<times> string) list \<Rightarrow> (string \<times> string) list" where
  "map_assign k v [] = [(k, v)]"
| "map_assign k v ((k', v') # m) =
     (if k < k' then (k, v) # (k', v') # m
      else if k = k' then (k, v) # m
      else (k', v') # map_assign k v m)"

record parser =
  state :: parse_state
  name_v :: string
  value_v :: string
  tmp :: "(string \<times> string) list"
  cookie_tmp :: cookie_t

definition parser_init :: parser where
  "parser_init =
     \<lparr>state = cookie_name_start, name_v = [], value_v = [], tmp = [],
      cookie_tmp = cookie_t_init\<rparr>"

text \<open>One turn of the \<open>switch\<close>, for the character \<open>c\<close>.\<close>

definition parse_char :: "helpers \<Rightarrow> parser \<Rightarrow> char \<Rightarrow> parser" where
  "parse_char h p c =
     (case state p of
        cookie_name_start \<Rightarrow>
          if c = CHR '' '' then p
          else if is_char h c then p\<lparr>name_v := name_v p @ [c], state := cookie_name\<rparr>
          else p\<lparr>state := cookie_bad\<rparr>
      | cookie_name \<Rightarrow>
          if c = CHR '';'' then
            (if name_v p = ''secure''
             then p\<lparr>state := cookie_name_start,
                    cookie_tmp := (cookie_tmp p)\<lparr>secure := True\<rparr>, name_v := []\<rparr>
             else if name_v p = ''httponly''
             then p\<lparr>state := cookie_name_start,
                    cookie_tmp := (cookie_tmp p)\<lparr>httponly := True\<rparr>, name_v := []\<rparr>
             else p\<lparr>state := cookie_bad, name_v := []\<rparr>)
          else if c = CHR ''='' then p\<lparr>value_v := [], state := cookie_value_start\<rparr>
          else if is_tspecial h c \<or> c = CHR '':'' then p\<lparr>name_v := [], state := cookie_name_start\<rparr>
          else if is_char h c \<or> c = CHR ''_'' then p\<lparr>name_v := name_v p @ [c]\<rparr>
          else p
      | cookie_value_start \<Rightarrow>
          if c = CHR '';''
          then p\<lparr>tmp := map_assign (name_v p) (value_v p) (tmp p), name_v := [], value_v := [],
                 state := cookie_name_start\<rparr>
          else if c = CHR 0x22 \<or> c = CHR 0x27 then p
          else if is_char h c then p\<lparr>value_v := value_v p @ [c], state := cookie_value\<rparr>
          else p\<lparr>state := cookie_bad\<rparr>
      | cookie_value \<Rightarrow>
          if c = CHR '';'' \<or> c = CHR 0x22 \<or> c = CHR 0x27
          then p\<lparr>tmp := map_assign (name_v p) (value_v p) (tmp p), name_v := [], value_v := [],
                 state := cookie_name_start\<rparr>
          else if is_char h c then p\<lparr>value_v := value_v p @ [c]\<rparr>
          else p\<lparr>state := cookie_bad\<rparr>
      | cookie_bad \<Rightarrow> p)"

text \<open>The loop \<open>while (iter != str.end() && state != cookie_bad)\<close>.\<close>

fun parse_chars :: "helpers \<Rightarrow> parser \<Rightarrow> string \<Rightarrow> parser" where
  "parse_chars h p [] = p"
| "parse_chars h p (c # cs) =
     (if state p = cookie_bad then p else parse_chars h (parse_char h p c) cs)"

text \<open>
  What follows the loop, at the end of the input: a pending \<open>secure\<close> or \<open>httponly\<close>
  sets its flag, a pending value is stored; \<open>None\<close> is \<open>return false\<close>.
\<close>

definition parse_end :: "parser \<Rightarrow> parser option" where
  "parse_end p =
     (if state p = cookie_name \<and> name_v p \<noteq> [] then
        (if name_v p = ''secure'' then Some (p\<lparr>cookie_tmp := (cookie_tmp p)\<lparr>secure := True\<rparr>\<rparr>)
         else if name_v p = ''httponly''
         then Some (p\<lparr>cookie_tmp := (cookie_tmp p)\<lparr>httponly := True\<rparr>\<rparr>)
         else Some p)
      else if state p = cookie_value \<and> value_v p \<noteq> []
      then Some (p\<lparr>tmp := map_assign (name_v p) (value_v p) (tmp p)\<rparr>)
      else if state p = cookie_bad then None
      else Some p)"

text \<open>\<open>boost::to_lower_copy\<close> in the classic locale.\<close>

definition to_lower :: "char \<Rightarrow> char" where
  "to_lower c =
     (case map_of (zip ''ABCDEFGHIJKLMNOPQRSTUVWXYZ'' ''abcdefghijklmnopqrstuvwxyz'') c of
        None \<Rightarrow> c
      | Some l \<Rightarrow> l)"

text \<open>
  The loop over the map that takes \<open>expires\<close>, \<open>domain\<close> and \<open>path\<close> out of it. The
  result is the map that is left and the shared attributes, or \<open>None\<close> when
  \<open>BOOST_ASSERT(0)\<close> ends the process.
\<close>

fun attributes ::
  "helpers \<Rightarrow> string \<Rightarrow> (string \<times> string) list \<Rightarrow> cookie_t \<Rightarrow>
     ((string \<times> string) list \<times> cookie_t) option" where
  "attributes h dd [] ct = Some ([], ct)"
| "attributes h dd ((k, v) # m) ct =
     (if map to_lower k = ''expires'' then
        (if \<not> fst (parse_http_date h v (expires ct)) \<and> boost_assert_enabled h then None
         else attributes h dd m (ct\<lparr>expires := snd (parse_http_date h v (expires ct))\<rparr>))
      else if map to_lower k = ''domain''
      then attributes h dd m (ct\<lparr>domain := (if v = [] \<and> dd \<noteq> [] then dd else v)\<rparr>)
      else if map to_lower k = ''path'' then attributes h dd m (ct\<lparr>path := v\<rparr>)
      else (case attributes h dd m ct of
              None \<Rightarrow> None
            | Some (m', ct') \<Rightarrow> Some ((k, v) # m', ct')))"

text \<open>The last loop: one record for each entry that is left, in the order of the map.\<close>

definition emit :: "(string \<times> string) list \<Rightarrow> cookie_t \<Rightarrow> cookie_t list" where
  "emit m ct = map (\<lambda>(k, v). ct\<lparr>name := k, value_c := v\<rparr>) m"

text \<open>
  \<open>parse_cookie_string(str, cookie)\<close> for a store whose default domain is \<open>dd\<close>, called
  with an empty vector: the boolean it returns and the vector it leaves.
\<close>

definition parse_cookie_string :: "helpers \<Rightarrow> string \<Rightarrow> string \<Rightarrow> (bool \<times> cookie_t list) outcome" where
  "parse_cookie_string h dd str =
     (case parse_end (parse_chars h parser_init str) of
        None \<Rightarrow> Returned (False, [])
      | Some p \<Rightarrow>
          (case attributes h dd (tmp p) (cookie_tmp p) of
             None \<Rightarrow> Aborted
           | Some (m, ct) \<Rightarrow> Returned (True, emit m ct)))"

text \<open>\<open>operator()(const std::string& str)\<close>.\<close>

definition insert_string :: "helpers \<Rightarrow> string \<Rightarrow> cookies \<Rightarrow> cookies outcome" where
  "insert_string h str s =
     (case parse_cookie_string h (m_default_domain s) str of
        Aborted \<Rightarrow> Aborted
      | Returned (ok, cookie) \<Rightarrow> Returned (if ok then fold push_back cookie s else s))"

subsection \<open>Merging two stores\<close>

definition compare_by_expires :: "(ptime \<Rightarrow> ptime \<Rightarrow> bool) \<Rightarrow> cookie_t \<Rightarrow> cookie_t \<Rightarrow> bool" where
  "compare_by_expires m_comp lhs rhs = m_comp (expires lhs) (expires rhs)"

text \<open>
  \<open>detail::cookie_megerable\<close>. \<open>it\<close> is \<open>container.find(element.name)\<close>; reading
  \<open>it->value\<close> when \<open>it\<close> is \<open>end()\<close> is undefined behaviour, kept apart as \<open>None\<close>.
\<close>

definition cookie_megerable :: "cookie_t \<Rightarrow> cookies \<Rightarrow> bool option" where
  "cookie_megerable element container =
     (let it = find_name (name element) (m_cookies container)
      in if find_cookie element (m_cookies container) = None then Some True
         else if value_c element = [] then Some False
         else (case it of
                 None \<Rightarrow> None
               | Some r \<Rightarrow>
                   if value_c r = [] then Some True
                   else if ptime_le (expires element) (expires r) then Some False
                   else Some True))"

definition cookie_not_megerable :: "cookie_t \<Rightarrow> cookies \<Rightarrow> bool option" where
  "cookie_not_megerable element container = map_option Not (cookie_megerable element container)"

text \<open>
  \<open>std::remove_copy_if(tmp.begin(), tmp.end(), std::back_inserter(ret), pred)\<close> where
  the predicate is \<open>cookie_not_megerable\<close> bound to a reference to \<open>ret\<close>: every
  element is tested against the result as it stands and appended unless the predicate
  holds.
\<close>

fun remove_copy_if :: "cookie_t list \<Rightarrow> cookies \<Rightarrow> cookies option" where
  "remove_copy_if [] ret = Some ret"
| "remove_copy_if (x # xs) ret =
     (case cookie_not_megerable x ret of
        None \<Rightarrow> None
      | Some True \<Rightarrow> remove_copy_if xs ret
      | Some False \<Rightarrow> remove_copy_if xs (push_back x ret))"

text \<open>
  \<open>std::sort\<close> promises a permutation of its input in which no element comes after one
  that the comparison puts strictly behind it; it promises nothing on the order of
  elements that compare equal. The sort is a parameter of the merge (it answers \<open>None\<close>
  when it does not return a vector), and \<open>sort_contract\<close> says that it kept the
  promise on the input at hand.
\<close>

definition sort_contract ::
  "(('a \<Rightarrow> 'a \<Rightarrow> bool) \<Rightarrow> 'a list \<Rightarrow> 'a list option) \<Rightarrow> ('a \<Rightarrow> 'a \<Rightarrow> bool) \<Rightarrow> 'a list \<Rightarrow> bool" where
  "sort_contract std_sort cmp xs =
     (case std_sort cmp xs of
        None \<Rightarrow> False
      | Some ys \<Rightarrow> mset ys = mset xs \<and> sorted_wrt (\<lambda>a b. \<not> cmp b a) ys)"

text \<open>The scratch store \<open>tmp\<close> of \<open>operator+\<close> after the two copies and after the sort.\<close>

definition copied :: "cookies \<Rightarrow> cookies \<Rightarrow> cookies" where
  "copied lhs rhs = fold push_back (m_cookies rhs) (fold push_back (m_cookies lhs) cookies_init)"

definition sorted_tmp ::
  "((cookie_t \<Rightarrow> cookie_t \<Rightarrow> bool) \<Rightarrow> cookie_t list \<Rightarrow> cookie_t list option) \<Rightarrow>
     cookies \<Rightarrow> cookies \<Rightarrow> cookie_t list option" where
  "sorted_tmp std_sort lhs rhs =
     std_sort (compare_by_expires ptime_greater) (m_cookies (copied lhs rhs))"

definition operator_plus ::
  "((cookie_t \<Rightarrow> cookie_t \<Rightarrow> bool) \<Rightarrow> cookie_t list \<Rightarrow> cookie_t list option) \<Rightarrow>
     cookies \<Rightarrow> cookies \<Rightarrow> cookies option" where
  "operator_plus std_sort lhs rhs =
     (case sorted_tmp std_sort lhs rhs of
        None \<Rightarrow> None
      | Some tmp_sorted \<Rightarrow> remove_copy_if tmp_sorted cookies_init)"

subsection \<open>The sort of the GNU library\<close>

text \<open>
  Modelled from the spec: \<open>std::sort\<close> is library code that is not part of the source.
  The spec (4.3) calls for a sort; what follows is the \<open>std::sort\<close> of the GNU library
  (\<open>bits/stl_algo.h\<close> and \<open>bits/stl_heap.h\<close> of GCC 4.9 and later), function by
  function, on a vector and positions in it: an introsort (median-of-three quicksort down to ranges of 16 elements,
  heap sort when the depth limit is used up) followed by an insertion sort. The unguarded
  loops of the library rely on the comparison being a strict weak order; where they
  would leave the vector the model answers \<open>None\<close>.
\<close>

definition iter_swap :: "'a list \<Rightarrow> nat \<Rightarrow> nat \<Rightarrow> 'a list" where
  "iter_swap v a b = v[a := v ! b, b := v ! a]"

definition move_median_to_first ::
  "('a \<Rightarrow> 'a \<Rightarrow> bool) \<Rightarrow> 'a list \<Rightarrow> nat \<Rightarrow> nat \<Rightarrow> nat \<Rightarrow> nat \<Rightarrow> 'a list" where
  "move_median_to_first cmp v result a b c =
     (if cmp (v ! a) (v ! b) then
        (if cmp (v ! b) (v ! c) then iter_swap v result b
         else if cmp (v ! a) (v ! c) then iter_swap v result c
         else iter_swap v result a)
      else if cmp (v ! a) (v ! c) then iter_swap v result a
      else if cmp (v ! b) (v ! c) then iter_swap v result c
      else iter_swap v result b)"

function scan_up :: "('a \<Rightarrow> 'a \<Rightarrow> bool) \<Rightarrow> 'a list \<Rightarrow> nat \<Rightarrow> nat \<Rightarrow> nat option" where
  "scan_up cmp v pivot first =
     (if first < length v then
        (if cmp (v ! first) (v ! pivot) then scan_up cmp v pivot (Suc first) else Some first)
      else None)"
  by pat_completeness auto
termination
  by (relation "measure (\<lambda>(cmp, v, pivot, first). length v - first)") auto

declare scan_up.simps [simp del]

fun scan_down :: "('a \<Rightarrow> 'a \<Rightarrow> bool) \<Rightarrow> 'a list \<Rightarrow> nat \<Rightarrow> nat \<Rightarrow> nat option" where
  "scan_down cmp v pivot 0 = (if cmp (v ! pivot) (v ! 0) then None else Some 0)"
| "scan_down cmp v pivot (Suc l) =
     (if cmp (v ! pivot) (v ! Suc l) then scan_down cmp v pivot l else Some (Suc l))"

function unguarded_partition ::
  "('a \<Rightarrow> 'a \<Rightarrow> bool) \<Rightarrow> 'a list \<Rightarrow> nat \<Rightarrow> nat \<Rightarrow> nat \<Rightarrow> ('a list \<times> nat) option" where
  "unguarded_partition cmp v first last_it pivot =
     (case scan_up cmp v pivot first of
        None \<Rightarrow> None
      | Some f \<Rightarrow>
          if last_it = 0 then None
          else (case scan_down cmp v pivot (last_it - 1) of
                  None \<Rightarrow> None
                | Some l \<Rightarrow>
                    if \<not> f < l then Some (v, f)
                    else unguarded_partition cmp (iter_swap v f l) (Suc f) l pivot))"
  by pat_completeness auto
termination
proof -
  have le: "scan_down c w p l0 = Some k \<Longrightarrow> k \<le> l0"
    for c :: "'a \<Rightarrow> 'a \<Rightarrow> bool" and w p l0 k
    by (induction l0) (auto split: if_splits)
  show ?thesis
    by (relation "measure (\<lambda>(cmp, v, first, last_it, pivot). last_it)") (auto dest: le)
qed

declare unguarded_partition.simps [simp del]

definition unguarded_partition_pivot ::
  "('a \<Rightarrow> 'a \<Rightarrow> bool) \<Rightarrow> 'a list \<Rightarrow> nat \<Rightarrow> nat \<Rightarrow> ('a list \<times> nat) option" where
  "unguarded_partition_pivot cmp v first last_it =
     (let mid = first + (last_it - first) div 2
      in unguarded_partition cmp
           (move_median_to_first cmp v first (first + 1) mid (last_it - 1)) (first + 1) last_it first)"

function push_heap ::
  "('a \<Rightarrow> 'a \<Rightarrow> bool) \<Rightarrow> 'a list \<Rightarrow> nat \<Rightarrow> nat \<Rightarrow> nat \<Rightarrow> 'a \<Rightarrow> 'a list" where
  "push_heap cmp v first holeIndex topIndex val =
     (let parent = (holeIndex - 1) div 2
      in if topIndex < holeIndex \<and> cmp (v ! (first + parent)) val
         then push_heap cmp (v[first + holeIndex := v ! (first + parent)]) first parent topIndex val
         else v[first + holeIndex := val])"
  by pat_completeness auto
termination
  by (relation "measure (\<lambda>(cmp, v, first, holeIndex, topIndex, val). holeIndex)") auto

declare push_heap.simps [simp del]

function sift_down ::
  "('a \<Rightarrow> 'a \<Rightarrow> bool) \<Rightarrow> 'a list \<Rightarrow> nat \<Rightarrow> nat \<Rightarrow> nat \<Rightarrow> nat \<Rightarrow> 'a list \<times> nat \<times> nat" where
  "sift_down cmp v first len holeIndex secondChild =
     (if secondChild < (len - 1) div 2 then
        (let child = 2 * (secondChild + 1);
             child = (if cmp (v ! (first + child)) (v ! (first + (child - 1))) then child - 1
                      else child)
         in sift_down cmp (v[first + holeIndex := v ! (first + child)]) first len child child)
      else (v, holeIndex, secondChild))"
  by pat_completeness auto
termination
  by (relation "measure (\<lambda>(cmp, v, first, len, holeIndex, secondChild). len - secondChild)")
     (auto simp: Let_def)

declare sift_down.simps [simp del]

definition adjust_heap ::
  "('a \<Rightarrow> 'a \<Rightarrow> bool) \<Rightarrow> 'a list \<Rightarrow> nat \<Rightarrow> nat \<Rightarrow> nat \<Rightarrow> 'a \<Rightarrow> 'a list" where
  "adjust_heap cmp v first holeIndex len val =
     (case sift_down cmp v first len holeIndex holeIndex of
        (v1, hole, secondChild) \<Rightarrow>
          if len mod 2 = 0 \<and> 2 \<le> len \<and> secondChild = (len - 2) div 2
          then push_heap cmp (v1[first + hole := v1 ! (first + (2 * (secondChild + 1) - 1))])
                 first (2 * (secondChild + 1) - 1) holeIndex val
          else push_heap cmp v1 first hole holeIndex val)"

fun make_heap_from :: "('a \<Rightarrow> 'a \<Rightarrow> bool) \<Rightarrow> 'a list \<Rightarrow> nat \<Rightarrow> nat \<Rightarrow> nat \<Rightarrow> 'a list" where
  "make_heap_from cmp v first len 0 = adjust_heap cmp v first 0 len (v ! first)"
| "make_heap_from cmp v first len (Suc parent) =
     make_heap_from cmp (adjust_heap cmp v first (Suc parent) len (v ! (first + Suc parent)))
       first len parent"

definition make_heap :: "('a \<Rightarrow> 'a \<Rightarrow> bool) \<Rightarrow> 'a list \<Rightarrow> nat \<Rightarrow> nat \<Rightarrow> 'a list" where
  "make_heap cmp v first last_it =
     (if last_it - first < 2 then v else make_heap_from cmp v first (last_it - first) ((last_it - first - 2) div 2))"

definition pop_heap :: "('a \<Rightarrow> 'a \<Rightarrow> bool) \<Rightarrow> 'a list \<Rightarrow> nat \<Rightarrow> nat \<Rightarrow> nat \<Rightarrow> 'a list" where
  "pop_heap cmp v first last_it result =
     adjust_heap cmp (v[result := v ! first]) first 0 (last_it - first) (v ! result)"

function sort_heap :: "('a \<Rightarrow> 'a \<Rightarrow> bool) \<Rightarrow> 'a list \<Rightarrow> nat \<Rightarrow> nat \<Rightarrow> 'a list" where
  "sort_heap cmp v first last_it =
     (if 1 < last_it - first then sort_heap cmp (pop_heap cmp v first (last_it - 1) (last_it - 1)) first (last_it - 1)
      else v)"
  by pat_completeness auto
termination
  by (relation "measure (\<lambda>(cmp, v, first, last_it). last_it - first)") auto

declare sort_heap.simps [simp del]

definition partial_sort :: "('a \<Rightarrow> 'a \<Rightarrow> bool) \<Rightarrow> 'a list \<Rightarrow> nat \<Rightarrow> nat \<Rightarrow> 'a list" where
  "partial_sort cmp v first last_it = sort_heap cmp (make_heap cmp v first last_it) first last_it"

fun introsort_loop ::
  "('a \<Rightarrow> 'a \<Rightarrow> bool) \<Rightarrow> nat \<Rightarrow> 'a list \<Rightarrow> nat \<Rightarrow> nat \<Rightarrow> 'a list option" where
  "introsort_loop cmp 0 v first last_it =
     (if 16 < last_it - first then Some (partial_sort cmp v first last_it) else Some v)"
| "introsort_loop cmp (Suc depth_limit) v first last_it =
     (if 16 < last_it - first then
        (case unguarded_partition_pivot cmp v first last_it of
           None \<Rightarrow> None
         | Some (v1, cut_it) \<Rightarrow>
             (case introsort_loop cmp depth_limit v1 cut_it last_it of
                None \<Rightarrow> None
              | Some v2 \<Rightarrow> introsort_loop cmp depth_limit v2 first cut_it))
      else Some v)"

fun unguarded_linear_insert :: "('a \<Rightarrow> 'a \<Rightarrow> bool) \<Rightarrow> 'a \<Rightarrow> 'a list \<Rightarrow> nat \<Rightarrow> 'a list option" where
  "unguarded_linear_insert cmp val v 0 = None"
| "unguarded_linear_insert cmp val v (Suc next) =
     (if cmp val (v ! next) then unguarded_linear_insert cmp val (v[Suc next := v ! next]) next
      else Some (v[Suc next := val]))"

fun insertion_sort :: "('a \<Rightarrow> 'a \<Rightarrow> bool) \<Rightarrow> nat list \<Rightarrow> 'a list \<Rightarrow> 'a list option" where
  "insertion_sort cmp [] v = Some v"
| "insertion_sort cmp (i # rest) v =
     (case (if cmp (v ! i) (v ! 0) then Some ((v ! i) # take i v @ drop (Suc i) v)
            else unguarded_linear_insert cmp (v ! i) v i) of
        None \<Rightarrow> None
      | Some v1 \<Rightarrow> insertion_sort cmp rest v1)"

fun unguarded_insertion_sort :: "('a \<Rightarrow> 'a \<Rightarrow> bool) \<Rightarrow> nat list \<Rightarrow> 'a list \<Rightarrow> 'a list option" where
  "unguarded_insertion_sort cmp [] v = Some v"
| "unguarded_insertion_sort cmp (i # rest) v =
     (case unguarded_linear_insert cmp (v ! i) v i of
        None \<Rightarrow> None
      | Some v1 \<Rightarrow> unguarded_insertion_sort cmp rest v1)"

definition final_insertion_sort :: "('a \<Rightarrow> 'a \<Rightarrow> bool) \<Rightarrow> 'a list \<Rightarrow> 'a list option" where
  "final_insertion_sort cmp v =
     (if 16 < length v then
        (case insertion_sort cmp [1..<16] v of
           None \<Rightarrow> None
         | Some v1 \<Rightarrow> unguarded_insertion_sort cmp [16..<length v] v1)
      else insertion_sort cmp [1..<length v] v)"

fun lg :: "nat \<Rightarrow> nat" where
  "lg n = (if n < 2 then 0 else Suc (lg (n div 2)))"

declare lg.simps [simp del]

definition gnu_sort :: "('a \<Rightarrow> 'a \<Rightarrow> bool) \<Rightarrow> 'a list \<Rightarrow> 'a list option" where
  "gnu_sort cmp v =
     (if v = [] then Some v
      else (case introsort_loop cmp (lg (length v) * 2) v 0 (length v) of
              None \<Rightarrow> None
            | Some v1 \<Rightarrow> final_insertion_sort cmp v1))"

subsection \<open>Instances of the parameters\<close>

text \<open>
  Modelled from the spec: the header that declares \<open>detail::is_char\<close>,
  \<open>detail::is_tspecial\<close> and \<open>detail::parse_http_date\<close> is not part of the source.
  \<open>rfc_is_char\<close> is the CHAR of RFC 2616 (the octets 0 to 127) and \<open>rfc_is_tspecial\<close>
  its separators, the character classes the spec (4.1) names. \<open>epoch_date\<close> stands for
  a date primitive: it reads the one date written below and rejects every other string,
  leaving the time stamp as it was.
\<close>

definition rfc_is_char :: "char \<Rightarrow> bool" where
  "rfc_is_char c = ((of_char c :: nat) \<le> 127)"

definition rfc_is_tspecial :: "char \<Rightarrow> bool" where
  "rfc_is_tspecial c = (c \<in> set (''()<>@,;:/[]?={} '' @ [CHR 0x5C, CHR 0x22, TAB]))"

definition epoch_date :: "string \<Rightarrow> ptime \<Rightarrow> bool \<times> ptime" where
  "epoch_date v e = (if v = ''Thu, 01-Jan-1970 00:00:00 GMT'' then (True, At 0) else (False, e))"

definition rfc_helpers :: "bool \<Rightarrow> helpers" where
  "rfc_helpers asserts =
     \<lparr>is_char = rfc_is_char, is_tspecial = rfc_is_tspecial, parse_http_date = epoch_date,
      boost_assert_enabled = asserts\<rparr>"

text \<open>
  The stable sort of the spec's words (4.3, step 2), by insertion from the right end: an
  element goes in front of the elements it does not come after, so that elements that
  compare equal keep their order.
\<close>

fun insert_stable :: "('a \<Rightarrow> 'a \<Rightarrow> bool) \<Rightarrow> 'a \<Rightarrow> 'a list \<Rightarrow> 'a list" where
  "insert_stable cmp x [] = [x]"
| "insert_stable cmp x (y # ys) = (if cmp y x then y # insert_stable cmp x ys else x # y # ys)"

definition stable_sort :: "('a \<Rightarrow> 'a \<Rightarrow> bool) \<Rightarrow> 'a list \<Rightarrow> 'a list" where
  "stable_sort cmp xs = foldr (insert_stable cmp) xs []"

text \<open>
  The merge in the spec's words (4.3, step 3). A candidate is admitted into the result so
  far if no record of the result has its full key, that is its name, its domain and its
  path; if one has, the candidate is admitted exactly when its value is not empty and the
  first record of the result that has its name has an empty value or expires strictly
  before the candidate. The walk takes the candidates in order and appends each admitted
  one to the result.
\<close>

definition admit_rule :: "cookie_t \<Rightarrow> cookie_t list \<Rightarrow> bool" where
  "admit_rule candidate result =
     (if \<exists>r \<in> set result.
           name r = name candidate \<and> domain r = domain candidate \<and> path r = path candidate
      then value_c candidate \<noteq> [] \<and>
           (case filter (\<lambda>r. name r = name candidate) result of
              [] \<Rightarrow> False
            | by_name # others \<Rightarrow>
                value_c by_name = [] \<or> ptime_less (expires by_name) (expires candidate))
      else True)"

fun admission_walk :: "cookie_t list \<Rightarrow> cookie_t list \<Rightarrow> cookie_t list" where
  "admission_walk result [] = result"
| "admission_walk result (candidate # candidates) =
     admission_walk (if admit_rule candidate result then result @ [candidate] else result)
       candidates"

subsection \<open>The stores a caller can build\<close>

text \<open>
  The stores reached from a new store by the three forms of \<open>operator()\<close>, by
  \<open>push_back\<close>, \<open>load_from_file\<close>, \<open>operator+\<close>, \<open>clear\<close> and \<open>default_domain\<close>,
  where the names handed to \<open>operator()(name, value)\<close>, \<open>operator()(cookie)\<close> and
  \<open>push_back\<close> are not empty. A call that does not come back (an abort, an out-of-range
  read) reaches no store. \<open>remove_cookie\<close> and writes through the iterators of
  \<open>begin()\<close> are not among the operations.
\<close>

inductive reachable ::
  "helpers \<Rightarrow> nat \<Rightarrow> ((cookie_t \<Rightarrow> cookie_t \<Rightarrow> bool) \<Rightarrow> cookie_t list \<Rightarrow> cookie_t list option) \<Rightarrow>
     cookies \<Rightarrow> bool"
  for h long_bits std_sort where
  constructed: "reachable h long_bits std_sort cookies_init"
| by_name_value: "reachable h long_bits std_sort s \<Longrightarrow> n \<noteq> [] \<Longrightarrow> reachable h long_bits std_sort (insert_name_value n v s)"
| by_cookie: "reachable h long_bits std_sort s \<Longrightarrow> name c \<noteq> [] \<Longrightarrow> reachable h long_bits std_sort (insert_cookie c s)"
| by_push_back: "reachable h long_bits std_sort s \<Longrightarrow> name c \<noteq> [] \<Longrightarrow> reachable h long_bits std_sort (push_back c s)"
| by_string: "reachable h long_bits std_sort s \<Longrightarrow> insert_string h str s = Returned s' \<Longrightarrow> reachable h long_bits std_sort s'"
| by_load: "reachable h long_bits std_sort s \<Longrightarrow> load_from_file long_bits fl s = Loaded s' \<Longrightarrow> reachable h long_bits std_sort s'"
| by_merge: "reachable h long_bits std_sort a \<Longrightarrow> reachable h long_bits std_sort b \<Longrightarrow>
     sort_contract std_sort (compare_by_expires ptime_greater) (m_cookies (copied a b)) \<Longrightarrow>
     operator_plus std_sort a b = Some s' \<Longrightarrow> reachable h long_bits std_sort s'"
| by_clear: "reachable h long_bits std_sort s \<Longrightarrow> reachable h long_bits std_sort (clear s)"
| by_default_domain: "reachable h long_bits std_sort s \<Longrightarrow> reachable h long_bits std_sort (set_default_domain d s)"

subsection \<open>Writing and reading back\<close>

text \<open>A field is plain when it is not empty and holds no tab and no newline.\<close>

definition plain_field :: "string \<Rightarrow> bool" where
  "plain_field f = (f \<noteq> [] \<and> TAB \<notin> set f \<and> NL \<notin> set f)"

section \<open>Properties\<close>

subsection \<open>Removal by name\<close>

lemma length_remove_if_from:
  "length (fst (remove_if_from left pred v result first)) = length v"
proof (induction left pred v result first rule: remove_if_from.induct)
  case (1 left pred v result first)
  show ?case
  proof (cases "first < length v")
    case False
    then show ?thesis by (subst remove_if_from.simps) simp
  next
    case True
    then show ?thesis
      using "1.IH" by (subst remove_if_from.simps) simp
  qed
qed

lemma length_remove_if: "length (fst (remove_if left pred v)) = length v"
  by (simp add: remove_if_def Let_def length_remove_if_from)

lemma size_remove_cookie: "size_c (remove_cookie left nm s) = size_c s"
  by (simp add: size_c_def remove_cookie_def length_remove_if)

text \<open>
  On the store of \<open>a=1\<close> and \<open>b=2\<close>, removing \<open>a\<close> assigns the second record to the
  first: a library that copies leaves two records named \<open>b\<close>, one that moves leaves the
  record \<open>b\<close> and a record whose name is empty.
\<close>

lemma remove_cookie_assigns:
  "map name (m_cookies (remove_cookie copy_assigned ''a''
      (insert_name_value ''b'' ''2'' (insert_name_value ''a'' ''1'' cookies_init))))
     = [''b'', ''b'']
   \<and> map name (m_cookies (remove_cookie move_assigned ''a''
      (insert_name_value ''b'' ''2'' (insert_name_value ''a'' ''1'' cookies_init))))
     = [''b'', []]"
  by (simp add: remove_cookie_def insert_name_value_def push_back_def cookies_init_def
      cookie_t_init_def remove_if_def find_if_def http_cookie_is_same_name_def
      remove_if_from.simps copy_assigned_def move_assigned_def)

text \<open>
  C1 (\<open>remove_cookie\<close>). The claim: removing by name takes every record of that name out
  of the store and the size goes down by their number. The code calls \<open>std::remove_if\<close>
  and never erases: on the store that holds the single record \<open>a=1\<close>, removing \<open>a\<close>
  leaves the store as it was, of size 1, the record still in it, whether the library
  copies or moves (nothing is assigned on this store).
\<close>

theorem remove_cookie_leaves_record:
  "remove_cookie left ''a'' (insert_name_value ''a'' ''1'' cookies_init)
     = insert_name_value ''a'' ''1'' cookies_init
   \<and> size_c (remove_cookie left ''a'' (insert_name_value ''a'' ''1'' cookies_init)) = 1
   \<and> map name (m_cookies (remove_cookie left ''a'' (insert_name_value ''a'' ''1'' cookies_init)))
       = [''a'']"
  by (simp add: remove_cookie_def insert_name_value_def push_back_def cookies_init_def
      cookie_t_init_def remove_if_def find_if_def http_cookie_is_same_name_def size_c_def
      remove_if_from.simps)

subsection \<open>Writing the cookie file\<close>

lemma save_cookie_eq:
  "save_cookie dd c f =
     f @ (if domain c = [] then dd else domain c) @ [TAB] @
     (if domain c = [] then ''FALSE'' else ''TRUE'') @ [TAB] @
     path c @ [TAB] @
     (if secure c then ''TRUE'' else ''FALSE'') @ [TAB] @
     show_int (if expires c \<noteq> not_a_date_time then ptime_to_time_t (expires c) else 0) @ [TAB] @
     name c @ [TAB] @ value_c c @ [TAB]"
  by (simp add: save_cookie_def f_write_def Let_def)

lemma show_int_0: "show_int 0 = ''0''"
  by (simp add: show_int_def show_nat.simps digit_char_def)

text \<open>
  C2 (\<open>save_to_file\<close>). The claim: every record is one line of seven tab-separated
  fields and ends with a newline. The last write of a record is \<open>f.write("\t\n", 1)\<close>,
  one character of the two: a store of two records is written, after the header comment,
  as one run of fourteen fields each followed by a tab, and no newline follows either
  record.
\<close>

theorem save_to_file_no_newline:
  "save_to_file True 0
     \<lparr>m_cookies =
        [cookie_t_init\<lparr>name := ''a'', value_c := ''1'', domain := ''d'', path := ''/''\<rparr>,
         cookie_t_init\<lparr>name := ''b'', value_c := ''2'', domain := ''d'', path := ''/''\<rparr>],
      m_default_domain = []\<rparr> []
   = Inr (memo @
       ''d'' @ [TAB] @ ''TRUE'' @ [TAB] @ ''/'' @ [TAB] @ ''FALSE'' @ [TAB] @ ''0'' @ [TAB] @
       ''a'' @ [TAB] @ ''1'' @ [TAB] @
       ''d'' @ [TAB] @ ''TRUE'' @ [TAB] @ ''/'' @ [TAB] @ ''FALSE'' @ [TAB] @ ''0'' @ [TAB] @
       ''b'' @ [TAB] @ ''2'' @ [TAB])"
  by (simp add: save_to_file_def save_cookie_eq show_int_0 cookie_t_init_def f_write_def)

subsection \<open>Reading the cookie file\<close>

lemma atol_0: "atol long_bits ''0'' = 0"
proof -
  have "\<not> (2::int) ^ (long_bits - 1) < 1" by (simp add: not_less)
  then show ?thesis
    by (simp add: atol_def is_space_def is_digit_def LONG_MAX_def LONG_MIN_def)
qed

text \<open>
  C4 (\<open>load_from_file\<close>). The claim: a data line of fewer than seven fields is reported
  to the caller as a decode error and nothing of the file is kept. The code reads
  \<open>split_vec[4]\<close> and the other fields without looking at the size of the vector: on a
  file whose second line has two fields the read is out of range (undefined behaviour,
  no exception), and the record of the first line is already in the store.
\<close>

theorem load_from_file_short_line:
  "load_from_file long_bits
     (Some (''d'' @ [TAB] @ ''TRUE'' @ [TAB] @ ''/'' @ [TAB] @ ''FALSE'' @ [TAB] @ ''0'' @ [TAB] @
            ''a'' @ [TAB] @ ''1'' @ [NL] @ ''x'' @ [TAB] @ ''y'' @ [NL]))
     cookies_init
   = Undefined_read
       \<lparr>m_cookies =
          [\<lparr>name = ''a'', value_c = ''1'', domain = ''d'', path = ''/'', expires = At 0,
            httponly = False, secure = False\<rparr>],
        m_default_domain = []\<rparr>"
  by (simp add: load_from_file_def trim_def is_space_def split_def line_cookie_def at_def
      cookie_t_init_def cookies_init_def push_back_def from_time_t_def atol_0)

subsection \<open>The parser\<close>

text \<open>
  C8 (\<open>parse_cookie_string\<close>, end of input). The claim: a string that ends inside a name
  or a value is read as if it ended with a semicolon, so that a pending bare name other
  than \<open>secure\<close> and \<open>httponly\<close> fails the parse. After the loop the code sets the two
  flags and stores a pending value, and has no branch for another pending name: \<open>a=1; foo\<close>
  is accepted and gives the record \<open>a=1\<close>, while \<open>a=1; foo;\<close> is rejected.
\<close>

theorem parse_pending_bare_name:
  "parse_cookie_string (rfc_helpers True) [] ''a=1; foo''
     = Returned (True, [cookie_t_init\<lparr>name := ''a'', value_c := ''1''\<rparr>])
   \<and> parse_cookie_string (rfc_helpers True) [] ''a=1; foo;'' = Returned (False, [])"
  by (simp add: parse_cookie_string_def parser_init_def parse_char_def parse_end_def
      rfc_helpers_def rfc_is_char_def rfc_is_tspecial_def emit_def cookie_t_init_def)

lemma set_map_assign: "fst ` set (map_assign k v m) = insert k (fst ` set m)"
  by (induction k v m rule: map_assign.induct) (simp_all add: insert_commute)

lemma sorted_map_assign:
  "sorted_wrt (<) (map fst m) \<Longrightarrow> sorted_wrt (<) (map fst (map_assign k v m))"
proof (induction m)
  case Nil
  then show ?case by simp
next
  case (Cons a m)
  obtain k' v' where a: "a = (k', v')" by (cases a)
  show ?case
  proof (cases "k < k'")
    case True
    with Cons.prems a show ?thesis by (auto intro: less_trans)
  next
    case False
    show ?thesis
    proof (cases "k = k'")
      case True
      with Cons.prems a show ?thesis by simp
    next
      case ne: False
      with False have gt: "k' < k" by simp
      have "\<forall>x \<in> fst ` set (map_assign k v m). k' < x"
        using Cons.prems a gt by (auto simp: set_map_assign)
      with Cons a False ne show ?thesis by auto
    qed
  qed
qed

lemma tmp_parse_char:
  "tmp (parse_char h p c) = tmp p \<or>
   tmp (parse_char h p c) = map_assign (name_v p) (value_v p) (tmp p) \<and>
     (state p = cookie_value_start \<or> state p = cookie_value)"
  by (cases "state p") (simp_all add: parse_char_def)

lemma sorted_parse_char:
  "sorted_wrt (<) (map fst (tmp p)) \<Longrightarrow> sorted_wrt (<) (map fst (tmp (parse_char h p c)))"
  using tmp_parse_char [of h p c] by (auto simp: sorted_map_assign)

lemma sorted_parse_chars:
  "sorted_wrt (<) (map fst (tmp p)) \<Longrightarrow> sorted_wrt (<) (map fst (tmp (parse_chars h p str)))"
  by (induction str arbitrary: p) (simp_all add: sorted_parse_char)

lemma sorted_parse_end:
  "sorted_wrt (<) (map fst (tmp p)) \<Longrightarrow> parse_end p = Some q \<Longrightarrow>
   sorted_wrt (<) (map fst (tmp q))"
  by (auto simp: parse_end_def sorted_map_assign split: if_splits)

lemma attributes_keys:
  "attributes h dd m ct = Some (m', ct') \<Longrightarrow> set m' \<subseteq> set m"
proof (induction m arbitrary: ct m')
  case Nil
  then show ?case by simp
next
  case (Cons a m)
  obtain k v where a: "a = (k, v)" by (cases a)
  from Cons.prems Cons.IH show ?case
    unfolding a by (fastforce split: if_splits option.splits)
qed

lemma sorted_attributes:
  "sorted_wrt (<) (map fst m) \<Longrightarrow> attributes h dd m ct = Some (m', ct') \<Longrightarrow>
   sorted_wrt (<) (map fst m')"
proof (induction m arbitrary: ct m')
  case Nil
  then show ?case by simp
next
  case (Cons a m)
  obtain k v where a: "a = (k, v)" by (cases a)
  have tl: "sorted_wrt (<) (map fst m)" using Cons.prems(1) by simp
  show ?case
  proof (cases "map to_lower k = ''expires'' \<or> map to_lower k = ''domain'' \<or> map to_lower k = ''path''")
    case True
    with Cons.prems(2) Cons.IH [OF tl] show ?thesis
      unfolding a by (auto split: if_splits)
  next
    case False
    with Cons.prems(2) obtain m0 where m0: "attributes h dd m ct = Some (m0, ct')" "m' = (k, v) # m0"
      unfolding a by (auto split: option.splits)
    have "sorted_wrt (<) (map fst m0)" using Cons.IH [OF tl m0(1)] .
    moreover have "\<forall>x \<in> set m0. k < fst x"
      using attributes_keys [OF m0(1)] Cons.prems(1) unfolding a by auto
    ultimately show ?thesis using m0(2) by simp
  qed
qed

lemma name_emit: "map name (emit m ct) = map fst m"
  by (simp add: emit_def case_prod_beta)

text \<open>
  C10 (\<open>parse_cookie_string\<close>, order of the records). Whenever the parser accepts a
  string, the names of the records it returns are strictly ascending in the order of
  \<open>std::string\<close> (character by character, by character code): the order of the
  temporary map, whatever the order of the pairs in the string.
\<close>

theorem parse_emits_in_name_order:
  "parse_cookie_string h dd str = Returned (True, cs) \<Longrightarrow> sorted_wrt (<) (map name cs)"
proof -
  assume r: "parse_cookie_string h dd str = Returned (True, cs)"
  then obtain p m ct where p: "parse_end (parse_chars h parser_init str) = Some p"
    and at: "attributes h dd (tmp p) (cookie_tmp p) = Some (m, ct)" and cs: "cs = emit m ct"
    by (auto simp: parse_cookie_string_def split: option.splits)
  have "sorted_wrt (<) (map fst (tmp (parse_chars h parser_init str)))"
    by (rule sorted_parse_chars) (simp add: parser_init_def)
  then have "sorted_wrt (<) (map fst (tmp p))" using p by (rule sorted_parse_end)
  then have "sorted_wrt (<) (map fst m)" using at by (rule sorted_attributes)
  then show ?thesis by (simp add: cs name_emit)
qed

text \<open>The string \<open>b=1; a=2\<close> gives the record \<open>a\<close> before the record \<open>b\<close>.\<close>

theorem parse_emits_in_name_order_witness:
  "parse_cookie_string (rfc_helpers True) [] ''b=1; a=2''
     = Returned (True, [cookie_t_init\<lparr>name := ''a'', value_c := ''2''\<rparr>,
                        cookie_t_init\<lparr>name := ''b'', value_c := ''1''\<rparr>])
   \<and> sorted_wrt (<) (map name [cookie_t_init\<lparr>name := ''a'', value_c := ''2''\<rparr>,
                        cookie_t_init\<lparr>name := ''b'', value_c := ''1''\<rparr>])"
proof -
  have r: "parse_cookie_string (rfc_helpers True) [] ''b=1; a=2''
     = Returned (True, [cookie_t_init\<lparr>name := ''a'', value_c := ''2''\<rparr>,
                        cookie_t_init\<lparr>name := ''b'', value_c := ''1''\<rparr>])"
    by (simp add: parse_cookie_string_def parser_init_def parse_char_def parse_end_def
      rfc_helpers_def rfc_is_char_def rfc_is_tspecial_def emit_def cookie_t_init_def)
  from r parse_emits_in_name_order [OF r] show ?thesis by (rule conjI)
qed

subsection \<open>Merging\<close>

lemma find_cookie_present:
  "find_cookie e cs \<noteq> None \<longleftrightarrow>
   (\<exists>r \<in> set cs. name r = name e \<and> domain r = domain e \<and> path r = path e)"
  by (induction cs) auto

lemma find_name_filter:
  "find_name n cs = (case filter (\<lambda>r. name r = n) cs of [] \<Rightarrow> None | r # rs \<Rightarrow> Some r)"
  by (induction cs) simp_all

lemma find_cookie_find_name:
  "find_cookie e cs = Some c \<Longrightarrow> \<exists>r. find_name (name e) cs = Some r"
  by (induction cs) (auto split: if_splits)

lemma cookie_megerable_admit:
  "cookie_megerable e ret = Some (admit_rule e (m_cookies ret))"
proof (cases "find_cookie e (m_cookies ret)")
  case None
  then have absent: "\<not> (\<exists>r \<in> set (m_cookies ret).
      name r = name e \<and> domain r = domain e \<and> path r = path e)"
    using find_cookie_present [of e "m_cookies ret"] by simp
  have "admit_rule e (m_cookies ret)"
    unfolding admit_rule_def by (subst if_not_P [OF absent]) simp
  with None show ?thesis by (simp add: cookie_megerable_def)
next
  case (Some c)
  then have present: "\<exists>r \<in> set (m_cookies ret).
      name r = name e \<and> domain r = domain e \<and> path r = path e"
    using find_cookie_present [of e "m_cookies ret"] by simp
  from Some obtain r where r: "find_name (name e) (m_cookies ret) = Some r"
    using find_cookie_find_name by blast
  then obtain rs where f: "filter (\<lambda>r. name r = name e) (m_cookies ret) = r # rs"
    unfolding find_name_filter [of "name e" "m_cookies ret"] by (auto split: list.splits)
  have a: "admit_rule e (m_cookies ret)
      = (value_c e \<noteq> [] \<and> (value_c r = [] \<or> ptime_less (expires r) (expires e)))"
    unfolding admit_rule_def by (subst if_P [OF present]) (simp add: f)
  from Some r show ?thesis unfolding a by (simp add: cookie_megerable_def ptime_le_def)
qed

lemma not_megerable_total:
  "cookie_not_megerable e ret = Some (\<not> admit_rule e (m_cookies ret))"
  by (simp add: cookie_not_megerable_def cookie_megerable_admit)

lemma remove_copy_if_walk:
  "remove_copy_if xs ret = Some (ret\<lparr>m_cookies := admission_walk (m_cookies ret) xs\<rparr>)"
  by (induction xs arbitrary: ret) (simp_all add: not_megerable_total push_back_def)

text \<open>
  C6 (\<open>cookie_megerable\<close> and the walk of \<open>operator+\<close>). \<open>cookie_megerable\<close> always
  returns, and what it returns is the admission rule of the spec: a candidate whose full
  key (name, domain, path) is on no record of the result so far is admitted, and one
  whose full key is there is admitted exactly when its value is not empty and the first
  record with its name has an empty value or expires strictly before the candidate. The
  walk of \<open>std::remove_copy_if\<close> always returns, and the store it returns holds the
  result it started from followed by the candidates the rule admits, each tested against
  the result so far; \<open>operator+\<close> returns the walk of the sorted sequence from the empty
  store.
\<close>

theorem merge_admission:
  "cookie_megerable candidate ret = Some (admit_rule candidate (m_cookies ret)) \<and>
   remove_copy_if candidates ret
     = Some (ret\<lparr>m_cookies := admission_walk (m_cookies ret) candidates\<rparr>) \<and>
   operator_plus std_sort lhs rhs
     = map_option (\<lambda>tmp_sorted. cookies_init\<lparr>m_cookies := admission_walk [] tmp_sorted\<rparr>)
         (sorted_tmp std_sort lhs rhs)"
  by (simp add: cookie_megerable_admit remove_copy_if_walk operator_plus_def cookies_init_def
      split: option.splits)

subsection \<open>The parser: an expiry date that cannot be read\<close>

lemma attributes_abort:
  "(k, v) \<in> set m \<Longrightarrow> map to_lower k = ''expires'' \<Longrightarrow> \<forall>e. \<not> fst (parse_http_date h v e) \<Longrightarrow>
   boost_assert_enabled h \<Longrightarrow> attributes h dd m ct = None"
proof (induction m arbitrary: ct)
  case Nil
  then show ?case by simp
next
  case (Cons a m)
  obtain k' v' where a: "a = (k', v')" by (cases a)
  show ?case
  proof (cases "(k', v') = (k, v)")
    case True
    with Cons.prems show ?thesis unfolding a by simp
  next
    case False
    with Cons.prems(1) have "(k, v) \<in> set m" unfolding a by auto
    then have "attributes h dd m ct' = None" for ct'
      using Cons.prems(2-4) by (rule Cons.IH)
    then show ?thesis unfolding a by simp
  qed
qed

lemma attributes_no_abort:
  "\<not> boost_assert_enabled h \<Longrightarrow> attributes h dd m ct \<noteq> None"
proof (induction m arbitrary: ct)
  case Nil
  then show ?case by simp
next
  case (Cons a m)
  obtain k v where a: "a = (k, v)" by (cases a)
  have ih: "attributes h dd m c \<noteq> None" for c using Cons.prems by (rule Cons.IH)
  show ?case unfolding a using Cons.prems by (simp add: ih split: option.splits del: not_None_eq)
qed

lemma attributes_left:
  "attributes h dd m ct = Some (m', ct') \<Longrightarrow> (k, v) \<in> set m' \<Longrightarrow> map to_lower k \<noteq> ''expires''"
proof (induction m arbitrary: ct m')
  case Nil
  then show ?case by simp
next
  case (Cons a m)
  obtain k' v' where a: "a = (k', v')" by (cases a)
  from Cons.prems Cons.IH show ?case
    unfolding a by (fastforce split: if_splits option.splits)
qed

text \<open>
  What the code does with a date it cannot read, on every string: when the state machine
  accepts the string and its map holds an \<open>expires\<close> entry (in any case of letters) that
  the date primitive rejects, the call never returns false. Built with \<open>BOOST_ASSERT\<close>
  it ends the process in \<open>BOOST_ASSERT(0)\<close>; built without, it returns true, the entry is
  taken out of the map and no record is made of it.
\<close>

theorem parse_unparsable_expires:
  assumes "parse_end (parse_chars h parser_init str) = Some p"
    and "(k, v) \<in> set (tmp p)" and "map to_lower k = ''expires''"
    and "\<forall>e. \<not> fst (parse_http_date h v e)"
  shows "if boost_assert_enabled h then parse_cookie_string h dd str = Aborted
         else (\<exists>cs. parse_cookie_string h dd str = Returned (True, cs) \<and> k \<notin> set (map name cs))"
proof (cases "boost_assert_enabled h")
  case True
  then have "attributes h dd (tmp p) (cookie_tmp p) = None"
    using assms(2-4) by (simp add: attributes_abort)
  with True assms(1) show ?thesis by (simp add: parse_cookie_string_def)
next
  case False
  then obtain m ct where at: "attributes h dd (tmp p) (cookie_tmp p) = Some (m, ct)"
    using attributes_no_abort [of h dd "tmp p" "cookie_tmp p"] by auto
  have "k \<notin> set (map fst m)"
    using attributes_left [OF at] assms(3) by force
  then have "k \<notin> set (map name (emit m ct))" unfolding name_emit .
  with False assms(1) at show ?thesis by (simp add: parse_cookie_string_def)
qed

text \<open>The same at \<open>sid=7; Expires=soon; path=/\<close>, in both builds.\<close>

theorem parse_unparsable_expires_witness:
  "parse_cookie_string (rfc_helpers True) ''h'' ''sid=7; Expires=soon; path=/'' = Aborted
   \<and> (\<exists>cs. parse_cookie_string (rfc_helpers False) ''h'' ''sid=7; Expires=soon; path=/''
              = Returned (True, cs) \<and> ''Expires'' \<notin> set (map name cs))"
proof -
  let ?p = "\<lparr>state = cookie_value, name_v = ''path'', value_v = ''/'',
             tmp = [(''Expires'', ''soon''), (''path'', ''/''), (''sid'', ''7'')],
             cookie_tmp = cookie_t_init\<rparr>"
  have p: "parse_end (parse_chars (rfc_helpers b) parser_init ''sid=7; Expires=soon; path=/'') = Some ?p" for b
    by (simp add: parser_init_def parse_char_def parse_end_def
      rfc_helpers_def rfc_is_char_def rfc_is_tspecial_def)
  have k: "(''Expires'', ''soon'') \<in> set (tmp ?p)" by simp
  have l: "map to_lower ''Expires'' = ''expires''" by (simp add: to_lower_def)
  have d: "\<forall>e. \<not> fst (parse_http_date (rfc_helpers b) ''soon'' e)" for b
    by (simp add: rfc_helpers_def epoch_date_def)
  have "parse_cookie_string (rfc_helpers True) ''h'' ''sid=7; Expires=soon; path=/'' = Aborted"
    using parse_unparsable_expires [OF p k l d, of True "''h''"] by (simp add: rfc_helpers_def)
  moreover have "\<exists>cs. parse_cookie_string (rfc_helpers False) ''h'' ''sid=7; Expires=soon; path=/''
              = Returned (True, cs) \<and> ''Expires'' \<notin> set (map name cs)"
    using parse_unparsable_expires [OF p k l d, of False "''h''"] by (simp add: rfc_helpers_def)
  ultimately show ?thesis by (rule conjI)
qed

text \<open>
  C7 (\<open>parse_cookie_string\<close>, \<open>expires\<close>). The claim: a date that cannot be parsed is
  returned to the caller as an error, and the process is not aborted. The code answers a
  failed \<open>parse_http_date\<close> with \<open>BOOST_ASSERT(0)\<close> and never with \<open>return false\<close>, the
  way it reports a string the state machine rejects: on \<open>a=1; expires=x\<close>, whose date
  the primitive rejects, the call aborts the process when assertions are compiled in,
  and returns true with the record \<open>a=1\<close> when they are not. In neither build does the
  caller get an error.
\<close>

theorem parse_unparsable_expires_aborts:
  "fst (parse_http_date (rfc_helpers True) ''x'' not_a_date_time) = False
   \<and> parse_cookie_string (rfc_helpers True) [] ''a=1; expires=x'' = Aborted
   \<and> parse_cookie_string (rfc_helpers False) [] ''a=1; expires=x''
       = Returned (True, [cookie_t_init\<lparr>name := ''a'', value_c := ''1''\<rparr>])"
  by (simp add: parse_cookie_string_def parser_init_def parse_char_def parse_end_def
      rfc_helpers_def rfc_is_char_def rfc_is_tspecial_def emit_def cookie_t_init_def
      epoch_date_def to_lower_def)

subsection \<open>Names of the stored records\<close>

lemma m_cookies_fold_push_back: "m_cookies (fold push_back cs s) = m_cookies s @ cs"
  by (induction cs arbitrary: s) (simp_all add: push_back_def)

lemma keys_parse_char:
  assumes "state p \<in> {cookie_name, cookie_value_start, cookie_value} \<longrightarrow> name_v p \<noteq> []"
    and "[] \<notin> fst ` set (tmp p)"
  shows "(state (parse_char h p c) \<in> {cookie_name, cookie_value_start, cookie_value}
            \<longrightarrow> name_v (parse_char h p c) \<noteq> [])
         \<and> [] \<notin> fst ` set (tmp (parse_char h p c))"
  using assms by (cases "state p") (simp_all add: parse_char_def set_map_assign)

lemma keys_parse_chars:
  "state p \<in> {cookie_name, cookie_value_start, cookie_value} \<longrightarrow> name_v p \<noteq> [] \<Longrightarrow>
   [] \<notin> fst ` set (tmp p) \<Longrightarrow>
   (state (parse_chars h p str) \<in> {cookie_name, cookie_value_start, cookie_value}
            \<longrightarrow> name_v (parse_chars h p str) \<noteq> [])
         \<and> [] \<notin> fst ` set (tmp (parse_chars h p str))"
proof (induction str arbitrary: p)
  case Nil
  then show ?case by simp
next
  case (Cons c str)
  show ?case
  proof (cases "state p = cookie_bad")
    case True
    with Cons.prems show ?thesis by simp
  next
    case False
    have "parse_chars h p (c # str) = parse_chars h (parse_char h p c) str"
      using False by simp
    moreover note keys_parse_char [OF Cons.prems, of h c]
    ultimately show ?thesis using Cons.IH [of "parse_char h p c"] by simp
  qed
qed

lemma tmp_parse_end:
  "parse_end p = Some q \<Longrightarrow>
   tmp q = tmp p \<or> tmp q = map_assign (name_v p) (value_v p) (tmp p) \<and> state p = cookie_value"
  by (auto simp: parse_end_def split: if_splits)

lemma keys_parse_end:
  assumes "state p \<in> {cookie_name, cookie_value_start, cookie_value} \<longrightarrow> name_v p \<noteq> []"
    and "[] \<notin> fst ` set (tmp p)" and "parse_end p = Some q"
  shows "[] \<notin> fst ` set (tmp q)"
proof -
  from tmp_parse_end [OF assms(3)] show ?thesis
  proof
    assume "tmp q = tmp p"
    with assms(2) show ?thesis by simp
  next
    assume a: "tmp q = map_assign (name_v p) (value_v p) (tmp p) \<and> state p = cookie_value"
    with assms(1) have "name_v p \<noteq> []" by simp
    with a assms(2) show ?thesis by (simp add: set_map_assign)
  qed
qed

lemma parse_names:
  assumes "parse_cookie_string h dd str = Returned (ok, cs)"
  shows "\<forall>c \<in> set cs. name c \<noteq> []"
proof (cases ok)
  case False
  with assms have "cs = []"
    by (auto simp: parse_cookie_string_def split: option.splits)
  then show ?thesis by simp
next
  case True
  with assms obtain p m ct where p: "parse_end (parse_chars h parser_init str) = Some p"
    and at: "attributes h dd (tmp p) (cookie_tmp p) = Some (m, ct)" and cs: "cs = emit m ct"
    by (auto simp: parse_cookie_string_def split: option.splits)
  have "(state (parse_chars h parser_init str) \<in> {cookie_name, cookie_value_start, cookie_value}
            \<longrightarrow> name_v (parse_chars h parser_init str) \<noteq> [])
         \<and> [] \<notin> fst ` set (tmp (parse_chars h parser_init str))"
    by (rule keys_parse_chars) (simp_all add: parser_init_def)
  then have "[] \<notin> fst ` set (tmp p)" using p keys_parse_end by blast
  then have "[] \<notin> fst ` set m" using attributes_keys [OF at] by auto
  then have "[] \<notin> set (map name cs)" unfolding cs name_emit by simp
  then show ?thesis by (auto simp: image_iff)
qed


lemma split_tabs_not_Nil: "split_tabs b cur s \<noteq> []"
  by (induction s arbitrary: b cur) auto

lemma split_tabs_inner:
  "(b \<and> cur = []) \<or> (\<not> b \<and> cur \<noteq> []) \<Longrightarrow> \<forall>t \<in> set (butlast (split_tabs b cur s)). t \<noteq> []"
proof (induction s arbitrary: b cur)
  case Nil
  then show ?case by simp
next
  case (Cons c s)
  show ?case
  proof (cases "c = TAB")
    case False
    then show ?thesis using Cons.IH [of False "c # cur"] by simp
  next
    case True
    show ?thesis
    proof (cases b)
      case b: True
      with Cons.prems True show ?thesis using Cons.IH [of True "[]"] by simp
    next
      case b: False
      with Cons.prems have "cur \<noteq> []" by simp
      with True b show ?thesis using Cons.IH [of True "[]"]
        by (simp add: split_tabs_not_Nil)
    qed
  qed
qed

lemma split_inner: "\<forall>t \<in> set (butlast (tl (split line))). t \<noteq> []"
proof (cases line)
  case Nil
  then show ?thesis by (simp add: split_def)
next
  case (Cons c s)
  show ?thesis
  proof (cases "c = TAB")
    case True
    then show ?thesis
      using split_tabs_inner [of True "[]" s] by (simp add: split_def Cons)
  next
    case False
    have "\<forall>t \<in> set (butlast (split_tabs False [c] s)). t \<noteq> []"
      by (rule split_tabs_inner) simp
    moreover have "set (butlast (tl xs)) \<subseteq> set (butlast xs)" for xs :: "string list"
      by (cases xs) (auto simp: butlast_tl [symmetric] dest: in_set_butlastD)
    ultimately show ?thesis using False by (auto simp: split_def Cons)
  qed
qed

lemma line_cookie_name: "line_cookie long_bits (split line) = Some c \<Longrightarrow> name c \<noteq> []"
proof -
  assume a: "line_cookie long_bits (split line) = Some c"
  then have len: "7 \<le> length (split line)" and nm: "name c = split line ! 5"
    by (auto simp: line_cookie_def at_def cookie_t_init_def split: option.splits if_splits)
  have "split line ! 5 = butlast (tl (split line)) ! 4"
    using len by (simp add: nth_butlast nth_tl)
  moreover have "butlast (tl (split line)) ! 4 \<in> set (butlast (tl (split line)))"
    using len by (intro nth_mem) simp
  ultimately show ?thesis using split_inner [of line] nm by auto
qed

lemma load_lines_names:
  "load_lines long_bits ls s = Loaded s' \<Longrightarrow> \<forall>c \<in> set (m_cookies s). name c \<noteq> [] \<Longrightarrow>
   \<forall>c \<in> set (m_cookies s'). name c \<noteq> []"
proof (induction ls arbitrary: s)
  case Nil
  then show ?case by simp
next
  case (Cons l ls)
  show ?case
  proof (cases "trim l = [] \<or> hd (trim l) = CHR ''#''")
    case True
    with Cons show ?thesis by (simp add: Let_def)
  next
    case False
    with Cons.prems(1) obtain c where c: "line_cookie long_bits (split (trim l)) = Some c"
      and r: "load_lines long_bits ls (push_back c s) = Loaded s'"
      by (auto simp: Let_def split: option.splits)
    have "\<forall>x \<in> set (m_cookies (push_back c s)). name x \<noteq> []"
      using Cons.prems(2) line_cookie_name [OF c] by (simp add: push_back_def)
    with r show ?thesis by (rule Cons.IH)
  qed
qed

lemma set_admission_walk: "set (admission_walk result cs) \<subseteq> set result \<union> set cs"
proof (induction cs arbitrary: result)
  case Nil
  show ?case by simp
next
  case (Cons c cs)
  show ?case
    using Cons.IH [of "result @ [c]"] Cons.IH [of result]
    by (cases "admit_rule c result") auto
qed

lemma m_cookies_copied: "m_cookies (copied lhs rhs) = m_cookies lhs @ m_cookies rhs"
  by (simp add: copied_def m_cookies_fold_push_back cookies_init_def)

lemma set_operator_plus:
  assumes "sort_contract std_sort (compare_by_expires ptime_greater) (m_cookies (copied a b))"
    and "operator_plus std_sort a b = Some r"
  shows "set (m_cookies r) \<subseteq> set (m_cookies a) \<union> set (m_cookies b)"
proof -
  from assms(1) obtain ys where ys: "sorted_tmp std_sort a b = Some ys"
    and m: "mset ys = mset (m_cookies (copied a b))"
    by (auto simp: sort_contract_def sorted_tmp_def split: option.splits)
  from m have "set ys = set (m_cookies (copied a b))" by (rule mset_eq_setD)
  then have "set ys = set (m_cookies a) \<union> set (m_cookies b)"
    by (simp add: m_cookies_copied)
  moreover have "m_cookies r = admission_walk [] ys"
    using assms(2) ys by (auto simp: operator_plus_def remove_copy_if_walk cookies_init_def)
  ultimately show ?thesis using set_admission_walk [of "[]" ys] by simp
qed

text \<open>
  C9 (names of stored records). As amended: the records that \<open>operator()(str)\<close> and
  \<open>load_from_file\<close> store have names that are not empty, and \<open>operator+\<close>, \<open>clear\<close>
  and \<open>default_domain\<close> store no new name; the two other forms of \<open>operator()\<close> and
  \<open>push_back\<close> store the name they are given. So every record of a store built by
  these operations has a name that is not empty, provided the names given to those
  three are not empty. \<open>remove_cookie\<close> is not one of these operations: with a library
  that moves, it can leave a record whose name is empty (\<open>remove_cookie_assigns\<close>).
\<close>

theorem stored_names_not_empty:
  "reachable h long_bits std_sort s \<Longrightarrow> \<forall>c \<in> set (m_cookies s). name c \<noteq> []"
proof (induction rule: reachable.induct)
  case constructed
  show ?case by (simp add: cookies_init_def)
next
  case (by_name_value s n v)
  then show ?case by (simp add: insert_name_value_def push_back_def)
next
  case (by_cookie s c)
  then show ?case by (simp add: insert_cookie_def push_back_def)
next
  case (by_push_back s c)
  then show ?case by (simp add: push_back_def)
next
  case (by_string s str s')
  from by_string.hyps(2) obtain ok cs
    where p: "parse_cookie_string h (m_default_domain s) str = Returned (ok, cs)"
      and s': "s' = (if ok then fold push_back cs s else s)"
    by (auto simp: insert_string_def split: outcome.splits)
  from parse_names [OF p] by_string.IH show ?case
    by (auto simp: s' m_cookies_fold_push_back)
next
  case (by_load s fl s')
  from by_load.hyps(2) obtain content
    where "load_lines long_bits (getlines [] content) s = Loaded s'"
    by (auto simp: load_from_file_def split: option.splits)
  then show ?case using by_load.IH by (rule load_lines_names)
next
  case (by_merge a b s')
  from set_operator_plus [OF by_merge.hyps(3,4)] by_merge.IH show ?case by blast
next
  case (by_clear s)
  show ?case by (simp add: clear_def)
next
  case (by_default_domain s d)
  then show ?case by (simp add: set_default_domain_def)
qed

text \<open>
  The claim as stated fails: \<open>operator()(name, value)\<close> with the empty name, and
  \<open>operator()(cookie)\<close> with a default-constructed record, store a record whose name is
  empty; nothing in the class checks a name.
\<close>

theorem stored_names_counterexample:
  "map name (m_cookies (insert_name_value [] ''v'' cookies_init)) = [[]]
   \<and> map name (m_cookies (insert_cookie cookie_t_init cookies_init)) = [[]]"
  by (simp add: insert_name_value_def insert_cookie_def push_back_def cookies_init_def
      cookie_t_init_def)


text \<open>A store built by \<open>operator()("a", "1")\<close> and \<open>operator()("sid=7; httponly")\<close>.\<close>

theorem stored_names_not_empty_witness:
  "reachable (rfc_helpers True) 64 gnu_sort
     \<lparr>m_cookies = [cookie_t_init\<lparr>name := ''a'', value_c := ''1''\<rparr>,
                   cookie_t_init\<lparr>name := ''sid'', value_c := ''7'', httponly := True\<rparr>],
      m_default_domain = []\<rparr>
   \<and> [] \<notin> set (map name (m_cookies
       \<lparr>m_cookies = [cookie_t_init\<lparr>name := ''a'', value_c := ''1''\<rparr>,
                     cookie_t_init\<lparr>name := ''sid'', value_c := ''7'', httponly := True\<rparr>],
        m_default_domain = []\<rparr>))"
proof -
  let ?s1 = "insert_name_value ''a'' ''1'' cookies_init"
  let ?s2 = "\<lparr>m_cookies = [cookie_t_init\<lparr>name := ''a'', value_c := ''1''\<rparr>,
                   cookie_t_init\<lparr>name := ''sid'', value_c := ''7'', httponly := True\<rparr>],
      m_default_domain = []\<rparr>"
  have r1: "reachable (rfc_helpers True) 64 gnu_sort ?s1"
    by (rule reachable.by_name_value [OF reachable.constructed]) simp
  have "insert_string (rfc_helpers True) ''sid=7; httponly'' ?s1 = Returned ?s2"
    by (simp add: insert_string_def parse_cookie_string_def parser_init_def parse_char_def
        parse_end_def rfc_helpers_def rfc_is_char_def rfc_is_tspecial_def emit_def
        cookie_t_init_def insert_name_value_def push_back_def cookies_init_def to_lower_def)
  with r1 have r2: "reachable (rfc_helpers True) 64 gnu_sort ?s2"
    by (rule reachable.by_string)
  from stored_names_not_empty [OF r2] have "[] \<notin> set (map name (m_cookies ?s2))"
    by (simp add: cookie_t_init_def)
  with r2 show ?thesis by (rule conjI)
qed

subsection \<open>The sort of the merge\<close>

lemma ptime_less_irrefl: "\<not> ptime_less a a"
  by (cases a) simp_all

lemma ptime_less_trans: "ptime_less a b \<Longrightarrow> ptime_less b c \<Longrightarrow> ptime_less a c"
  by (cases a; cases b; cases c) simp_all

lemma ptime_less_asym: "ptime_less a b \<Longrightarrow> \<not> ptime_less b a"
  by (cases a; cases b) simp_all

lemma ptime_less_total: "\<not> ptime_less a b \<Longrightarrow> \<not> ptime_less b a \<Longrightarrow> a = b"
  by (cases a; cases b) simp_all

lemma ptime_not_less_trans: "\<not> ptime_less a b \<Longrightarrow> \<not> ptime_less b c \<Longrightarrow> \<not> ptime_less a c"
  by (cases a; cases b; cases c) simp_all

lemma cmp_expires: "compare_by_expires ptime_greater b a = ptime_less (expires a) (expires b)"
  by (simp add: compare_by_expires_def ptime_greater_def)

lemma mset_insert_stable: "mset (insert_stable cmp x ys) = add_mset x (mset ys)"
  by (induction ys) simp_all

lemma mset_stable_sort: "mset (stable_sort cmp xs) = mset xs"
  by (induction xs) (simp_all add: stable_sort_def mset_insert_stable)

lemma set_insert_stable: "set (insert_stable cmp x ys) = insert x (set ys)"
  by (induction ys) auto

lemma sorted_insert_stable:
  "sorted_wrt (\<lambda>a b. \<not> ptime_less (expires a) (expires b)) ys \<Longrightarrow>
   sorted_wrt (\<lambda>a b. \<not> ptime_less (expires a) (expires b))
     (insert_stable (compare_by_expires ptime_greater) x ys)"
proof (induction ys)
  case Nil
  then show ?case by simp
next
  case (Cons y ys)
  show ?case
  proof (cases "ptime_less (expires x) (expires y)")
    case True
    then have "\<not> ptime_less (expires y) (expires x)" by (rule ptime_less_asym)
    with True Cons show ?thesis by (auto simp: cmp_expires set_insert_stable)
  next
    case False
    have "\<not> ptime_less (expires x) (expires z)" if "z \<in> set ys" for z
      using that False Cons.prems ptime_not_less_trans by fastforce
    with False Cons.prems show ?thesis by (auto simp: cmp_expires)
  qed
qed

lemma sorted_stable_sort:
  "sorted_wrt (\<lambda>a b. \<not> ptime_less (expires a) (expires b))
     (stable_sort (compare_by_expires ptime_greater) xs)"
proof (induction xs)
  case Nil
  show ?case by (simp add: stable_sort_def)
next
  case (Cons x xs)
  then show ?case using sorted_insert_stable [of "stable_sort (compare_by_expires ptime_greater) xs" x]
    by (simp add: stable_sort_def)
qed

lemma stable_sort_contract:
  "sort_contract (\<lambda>cmp xs. Some (stable_sort cmp xs)) (compare_by_expires ptime_greater) xs"
  by (simp add: sort_contract_def mset_stable_sort cmp_expires sorted_stable_sort)

text \<open>\<open>stable_sort\<close> keeps the order of the records that expire at the same time.\<close>

lemma filter_insert_stable:
  "filter (\<lambda>c. expires c = e) (insert_stable (compare_by_expires ptime_greater) x ys)
     = (if expires x = e then x # filter (\<lambda>c. expires c = e) ys
        else filter (\<lambda>c. expires c = e) ys)"
  by (induction ys) (auto simp: cmp_expires ptime_less_irrefl)

lemma stable_sort_stable:
  "filter (\<lambda>c. expires c = e) (stable_sort (compare_by_expires ptime_greater) xs)
     = filter (\<lambda>c. expires c = e) xs"
  by (induction xs) (simp_all add: stable_sort_def filter_insert_stable)

lemma descending_unique:
  "sorted_wrt (\<lambda>a b. \<not> ptime_less a b) xs \<Longrightarrow> sorted_wrt (\<lambda>a b. \<not> ptime_less a b) ys \<Longrightarrow>
   mset xs = mset ys \<Longrightarrow> xs = ys"
proof (induction xs arbitrary: ys)
  case Nil
  then show ?case by simp
next
  case (Cons x xs)
  from Cons.prems(3) obtain y ys' where ys: "ys = y # ys'"
    by (cases ys) auto
  have "x \<in> set ys" using Cons.prems(3) by (metis list.set_intros(1) mset_eq_setD)
  then have 1: "\<not> ptime_less y x"
    using Cons.prems(2) ys by (auto simp: ptime_less_irrefl)
  have "y \<in> set (x # xs)" using Cons.prems(3) ys by (metis list.set_intros(1) mset_eq_setD)
  then have 2: "\<not> ptime_less x y"
    using Cons.prems(1) by (auto simp: ptime_less_irrefl)
  from 1 2 have xy: "x = y" by (rule ptime_less_total [THEN sym])
  with Cons.prems ys have "xs = ys'" by (intro Cons.IH) simp_all
  with xy ys show ?case by simp
qed

text \<open>
  C5 (\<open>operator+\<close>, the sort). As amended: the scratch store holds the records of the
  left store followed by those of the right one, and is then sorted by \<open>std::sort\<close> with
  \<open>std::greater\<close> on \<open>expires\<close>. Whatever a sort that keeps the promise of
  \<open>std::sort\<close> returns, the expiry times of the sorted sequence, read in order, are
  those of the stable descending sort of the concatenation, the absent expiry first. The
  order of the records that expire at the same time is not fixed.
\<close>

theorem sorted_tmp_by_expires:
  assumes "sort_contract std_sort (compare_by_expires ptime_greater) (m_cookies (copied lhs rhs))"
  shows "m_cookies (copied lhs rhs) = m_cookies lhs @ m_cookies rhs
       \<and> map_option (map expires) (sorted_tmp std_sort lhs rhs)
           = Some (map expires (stable_sort (compare_by_expires ptime_greater)
                                  (m_cookies lhs @ m_cookies rhs)))"
proof -
  let ?xs = "m_cookies lhs @ m_cookies rhs"
  let ?cmp = "compare_by_expires ptime_greater"
  have c: "m_cookies (copied lhs rhs) = ?xs" by (rule m_cookies_copied)
  from assms obtain ys where ys: "sorted_tmp std_sort lhs rhs = Some ys"
    and m: "mset ys = mset ?xs"
    and s: "sorted_wrt (\<lambda>a b. \<not> ptime_less (expires a) (expires b)) ys"
    by (auto simp: sort_contract_def sorted_tmp_def c cmp_expires split: option.splits)
  have "sorted_wrt (\<lambda>a b. \<not> ptime_less a b) (map expires ys)"
    using s by (simp add: sorted_wrt_map)
  moreover have "sorted_wrt (\<lambda>a b. \<not> ptime_less a b) (map expires (stable_sort ?cmp ?xs))"
    using sorted_stable_sort [of ?xs] by (simp add: sorted_wrt_map)
  moreover have "mset (map expires ys) = mset (map expires (stable_sort ?cmp ?xs))"
    using m by (simp add: mset_stable_sort del: mset_append)
  ultimately have "map expires ys = map expires (stable_sort ?cmp ?xs)"
    by (rule descending_unique)
  with c ys show ?thesis by simp
qed

text \<open>
  The claim as stated fails with the \<open>std::sort\<close> of the GNU library, which is not a
  stable sort. The left store holds the nine records \<open>a\<close> to \<open>i\<close> and the right one the
  eight records \<open>j\<close> to \<open>q\<close>, none of which expires, so that all seventeen compare equal.
  The median step swaps the first record with the ninth, the partition swaps the second
  with the last, the third with the last but one and so on, and the insertion sort moves
  nothing: the records come out as \<open>i q p o n m l k j a h g f e d c b\<close>, where the stable
  sort keeps \<open>a\<close> to \<open>q\<close>.
\<close>

theorem sorted_tmp_counterexample:
  "map_option (map name)
     (sorted_tmp gnu_sort
        \<lparr>m_cookies = map (\<lambda>n. cookie_t_init\<lparr>name := n, value_c := ''1''\<rparr>)
           [''a'', ''b'', ''c'', ''d'', ''e'', ''f'', ''g'', ''h'', ''i''],
         m_default_domain = []\<rparr>
        \<lparr>m_cookies = map (\<lambda>n. cookie_t_init\<lparr>name := n, value_c := ''1''\<rparr>)
           [''j'', ''k'', ''l'', ''m'', ''n'', ''o'', ''p'', ''q''],
         m_default_domain = []\<rparr>)
     = Some [''i'', ''q'', ''p'', ''o'', ''n'', ''m'', ''l'', ''k'', ''j'', ''a'', ''h'', ''g'',
             ''f'', ''e'', ''d'', ''c'', ''b'']
   \<and> map name
       (stable_sort (compare_by_expires ptime_greater)
          (map (\<lambda>n. cookie_t_init\<lparr>name := n, value_c := ''1''\<rparr>)
             [''a'', ''b'', ''c'', ''d'', ''e'', ''f'', ''g'', ''h'', ''i'']
           @ map (\<lambda>n. cookie_t_init\<lparr>name := n, value_c := ''1''\<rparr>)
               [''j'', ''k'', ''l'', ''m'', ''n'', ''o'', ''p'', ''q'']))
     = [''a'', ''b'', ''c'', ''d'', ''e'', ''f'', ''g'', ''h'', ''i'', ''j'', ''k'', ''l'', ''m'',
        ''n'', ''o'', ''p'', ''q'']"
  by code_simp

text \<open>
  With the sort of the GNU library: a record that expires and two that do not; the two
  that do not come first.
\<close>

theorem sorted_tmp_by_expires_witness:
  "map_option (map expires) (sorted_tmp gnu_sort
      (insert_cookie (cookie_t_init\<lparr>name := ''a'', value_c := ''1'', expires := At 5000000\<rparr>)
         cookies_init)
      (insert_name_value ''c'' ''3'' (insert_name_value ''b'' ''2'' cookies_init)))
   = Some [not_a_date_time, not_a_date_time, At 5000000]"
proof -
  let ?A = "insert_cookie (cookie_t_init\<lparr>name := ''a'', value_c := ''1'', expires := At 5000000\<rparr>)
         cookies_init"
  let ?B = "insert_name_value ''c'' ''3'' (insert_name_value ''b'' ''2'' cookies_init)"
  have "sort_contract gnu_sort (compare_by_expires ptime_greater) (m_cookies (copied ?A ?B))"
    by code_simp
  from sorted_tmp_by_expires [OF this] show ?thesis
    by (simp add: stable_sort_def insert_name_value_def insert_cookie_def push_back_def
        cookies_init_def cookie_t_init_def cmp_expires compare_by_expires_def ptime_greater_def)
qed

subsection \<open>Writing and reading back\<close>

lemma digit_cases: "d < 10 \<Longrightarrow> d \<in> {0, 1, 2, 3, 4, 5, 6, 7, 8, 9::nat}"
  by auto

lemma digit_char_props:
  assumes "d < 10"
  shows "is_digit (digit_char d)" and "int (of_char (digit_char d)) - 48 = int d"
    and "\<not> is_space (digit_char d)" and "digit_char d \<noteq> CHR ''-''" and "digit_char d \<noteq> CHR ''+''"
    and "digit_char d \<noteq> TAB" and "digit_char d \<noteq> NL"
  using digit_cases [OF assms] by (auto simp: digit_char_def is_digit_def is_space_def)

lemma digits_value_append:
  "\<forall>c \<in> set xs. is_digit c \<Longrightarrow> digits_value acc (xs @ ys) = digits_value (digits_value acc xs) ys"
  by (induction xs arbitrary: acc) simp_all

lemma show_nat_digits: "c \<in> set (show_nat n) \<Longrightarrow> \<exists>d < 10. c = digit_char d"
proof (induction n rule: show_nat.induct)
  case (1 n)
  show ?case
  proof (cases "n < 10")
    case True
    with "1.prems" have "c = digit_char n" by (subst (asm) show_nat.simps) simp
    with True show ?thesis by blast
  next
    case False
    with "1.prems" have "c \<in> set (show_nat (n div 10)) \<or> c = digit_char (n mod 10)"
      by (subst (asm) show_nat.simps) auto
    then show ?thesis
    proof
      assume "c \<in> set (show_nat (n div 10))"
      with False show ?thesis by (rule "1.IH")
    next
      assume "c = digit_char (n mod 10)"
      moreover have "n mod 10 < 10" by simp
      ultimately show ?thesis by blast
    qed
  qed
qed

lemma show_nat_is_digit: "\<forall>c \<in> set (show_nat n). is_digit c"
proof
  fix c assume "c \<in> set (show_nat n)"
  then obtain d where "d < 10" "c = digit_char d" using show_nat_digits by blast
  then show "is_digit c" by (simp add: digit_char_props(1))
qed

lemma show_nat_not_Nil: "show_nat n \<noteq> []"
  by (subst show_nat.simps) simp

lemma digits_value_show_nat: "digits_value 0 (show_nat n) = int n"
proof (induction n rule: show_nat.induct)
  case (1 n)
  show ?case
  proof (cases "n < 10")
    case True
    then show ?thesis by (subst show_nat.simps) (simp add: digit_char_props)
  next
    case False
    have m: "n mod 10 < 10" by simp
    have "digits_value 0 (show_nat n)
        = digits_value (digits_value 0 (show_nat (n div 10))) [digit_char (n mod 10)]"
      using False by (subst show_nat.simps) (simp add: digits_value_append show_nat_is_digit)
    also have "\<dots> = int (n div 10) * 10 + int (n mod 10)"
      using False "1.IH" m by (simp add: digit_char_props)
    also have "\<dots> = int n" by presburger
    finally show ?thesis .
  qed
qed

lemma atol_show_int:
  assumes "LONG_MIN long_bits \<le> i" and "i \<le> LONG_MAX long_bits"
  shows "atol long_bits (show_int i) = i"
proof -
  obtain c cs where s: "show_nat (nat \<bar>i\<bar>) = c # cs"
    using show_nat_not_Nil by (cases "show_nat (nat \<bar>i\<bar>)") auto
  then obtain d where d: "d < 10" "c = digit_char d"
    using show_nat_digits [of c "nat \<bar>i\<bar>"] by auto
  have v: "digits_value 0 (c # cs) = \<bar>i\<bar>"
    using digits_value_show_nat [of "nat \<bar>i\<bar>"] s by simp
  show ?thesis
  proof (cases "i < 0")
    case True
    then have "show_int i = CHR ''-'' # c # cs" using s by (simp add: show_int_def abs_if)
    moreover have "digits_value 0 (c # cs) = - i" using v True by simp
    ultimately show ?thesis using True assms by (simp add: atol_def is_space_def)
  next
    case False
    then have "show_int i = c # cs" using s by (simp add: show_int_def abs_if)
    then show ?thesis using v False d digit_char_props(3-5) [OF d(1)] assms
      by (simp add: atol_def)
  qed
qed

lemma show_int_chars: "show_int i \<noteq> [] \<and> TAB \<notin> set (show_int i) \<and> NL \<notin> set (show_int i)"
proof -
  have "c \<noteq> TAB \<and> c \<noteq> NL" if "c \<in> set (show_nat n)" for c n
  proof -
    from that obtain d where "d < 10" "c = digit_char d" using show_nat_digits by blast
    then show ?thesis by (simp add: digit_char_props(6,7))
  qed
  then have "TAB \<notin> set (show_nat n) \<and> NL \<notin> set (show_nat n)" for n by blast
  then show ?thesis by (simp add: show_int_def show_nat_not_Nil)
qed


lemma getlines_line:
  "NL \<notin> set xs \<Longrightarrow> getlines cur (xs @ NL # rest) = (rev cur @ xs) # getlines [] rest"
  by (induction xs arbitrary: cur) auto

lemma getlines_last: "NL \<notin> set xs \<Longrightarrow> getlines cur xs = [rev cur @ xs]"
  by (induction xs arbitrary: cur) auto

lemma trim_line:
  assumes "xs \<noteq> []" and "\<not> is_space (hd xs)" and "\<not> is_space (last xs)"
  shows "trim (xs @ [TAB]) = xs"
proof -
  have 1: "dropWhile is_space (xs @ [TAB]) = xs @ [TAB]"
    using assms(1,2) by (cases xs) simp_all
  have 2: "dropWhile is_space (rev xs) = rev xs"
    using assms(1,3) by (cases "rev xs") (auto simp: last_rev [symmetric] hd_rev)
  show ?thesis by (simp add: trim_def 1 2 is_space_def)
qed

lemma split_tabs_field:
  "TAB \<notin> set a \<Longrightarrow> a \<noteq> [] \<or> \<not> b \<Longrightarrow>
   split_tabs b cur (a @ TAB # rest) = (rev cur @ a) # split_tabs True [] rest"
  by (induction a arbitrary: b cur) auto

lemma split_tabs_last: "TAB \<notin> set a \<Longrightarrow> split_tabs b cur a = [rev cur @ a]"
  by (induction a arbitrary: b cur) auto

lemma split_seven:
  assumes "TAB \<notin> set f0" "TAB \<notin> set f1" "TAB \<notin> set f2" "TAB \<notin> set f3" "TAB \<notin> set f4"
    "TAB \<notin> set f5" "TAB \<notin> set f6"
    and "f1 \<noteq> []" "f2 \<noteq> []" "f3 \<noteq> []" "f4 \<noteq> []" "f5 \<noteq> []"
  shows "split (f0 @ TAB # f1 @ TAB # f2 @ TAB # f3 @ TAB # f4 @ TAB # f5 @ TAB # f6)
           = [f0, f1, f2, f3, f4, f5, f6]"
  using assms by (simp add: split_def split_tabs_field split_tabs_last)

lemma load_lines_memo:
  "load_lines long_bits (getlines [] (memo @ rest)) s = load_lines long_bits (getlines [] rest) s"
  by (simp add: memo_def trim_def is_space_def)

lemma load_lines_single:
  "trim l = line \<Longrightarrow> line \<noteq> [] \<Longrightarrow> hd line \<noteq> CHR ''#'' \<Longrightarrow>
   line_cookie long_bits (split line) = Some k \<Longrightarrow>
   load_lines long_bits [l] s = Loaded (push_back k s)"
  by (simp add: Let_def)

lemma load_line_cookie:
  assumes "plain_field (domain c)" "plain_field (path c)" "plain_field (name c)"
    "plain_field (value_c c)"
    and "\<not> is_space (hd (domain c))" "hd (domain c) \<noteq> CHR ''#''"
    and "\<not> is_space (last (value_c c))"
    and "expires c = At us"
    and "LONG_MIN long_bits \<le> us div 1000000" "us div 1000000 \<le> LONG_MAX long_bits"
  shows "load_lines long_bits (getlines [] (save_cookie dd c [])) s
       = Loaded (push_back
           (cookie_t_init\<lparr>domain := domain c, path := path c, secure := secure c,
              expires := At (us div 1000000 * 1000000), name := name c,
              value_c := value_c c\<rparr>) s)"
proof -
  let ?flag = "''TRUE''"
  let ?sec = "if secure c then ''TRUE'' else ''FALSE''"
  let ?t = "us div 1000000"
  let ?line = "domain c @ TAB # ?flag @ TAB # path c @ TAB # ?sec @ TAB # show_int ?t @ TAB #
               name c @ TAB # value_c c"
  let ?k = "cookie_t_init\<lparr>domain := domain c, path := path c, secure := secure c,
              expires := At (us div 1000000 * 1000000), name := name c,
              value_c := value_c c\<rparr>"
  from assms(1-4) have ne: "domain c \<noteq> []" "path c \<noteq> []" "name c \<noteq> []" "value_c c \<noteq> []"
    and tab: "TAB \<notin> set (domain c)" "TAB \<notin> set (path c)" "TAB \<notin> set (name c)"
      "TAB \<notin> set (value_c c)"
    and nl: "NL \<notin> set (domain c)" "NL \<notin> set (path c)" "NL \<notin> set (name c)"
      "NL \<notin> set (value_c c)"
    by (simp_all add: plain_field_def)
  have sc: "save_cookie dd c [] = ?line @ [TAB]"
    using ne assms(8) by (simp add: save_cookie_eq)
  have "NL \<notin> set (?line @ [TAB])"
    using nl show_int_chars [of ?t] by simp
  then have gl: "getlines [] (save_cookie dd c []) = [?line @ [TAB]]"
    unfolding sc by (simp add: getlines_last)
  have hd: "hd ?line = hd (domain c)" using ne by simp
  have last: "last ?line = last (value_c c)" using ne by simp
  have tr: "trim (?line @ [TAB]) = ?line"
  proof (rule trim_line)
    show "?line \<noteq> []" using ne by simp
    show "\<not> is_space (hd ?line)" unfolding hd by (rule assms(5))
    show "\<not> is_space (last ?line)" unfolding last by (rule assms(7))
  qed
  have sp: "split ?line = [domain c, ?flag, path c, ?sec, show_int ?t, name c, value_c c]"
    by (rule split_seven) (use tab ne show_int_chars [of ?t] in simp_all)
  have lc: "line_cookie long_bits (split ?line) = Some ?k"
    unfolding sp
    by (simp add: line_cookie_def at_def atol_show_int [OF assms(9,10)] from_time_t_def)
  have n: "?line \<noteq> []" using ne by simp
  have h: "hd ?line \<noteq> CHR ''#''" unfolding hd by (rule assms(6))
  show ?thesis unfolding gl using tr n h lc by (rule load_lines_single)
qed

lemma show_int_1: "show_int 1 = ''1''"
  by (simp add: show_int_def show_nat.simps digit_char_def)

lemma show_int_2: "show_int 2 = ''2''"
  by (simp add: show_int_def show_nat.simps digit_char_def)

text \<open>
  C3 (round trip). The claim: reading back what \<open>save_to_file\<close> wrote gives the records
  of the store, with their domain, path, secure flag, name and value, and their expiry to
  the second. A store of two records, which expire one and two seconds after the epoch, is
  written to a new file as the header comment and one line, since no newline follows a
  record; \<open>load_from_file\<close> (here with a \<open>long\<close> of 64 bits) reads that line as one record
  from its first seven fields and returns. The second record is not read back.
\<close>

theorem load_saved_two_records:
  "save_to_file True 0
     \<lparr>m_cookies =
        [\<lparr>name = ''a'', value_c = ''1'', domain = ''d'', path = ''/'', expires = At 1000000,
          httponly = False, secure = False\<rparr>,
         \<lparr>name = ''b'', value_c = ''2'', domain = ''d'', path = ''/'', expires = At 2000000,
          httponly = False, secure = False\<rparr>],
      m_default_domain = []\<rparr> []
     = Inr (memo @
         ''d'' @ [TAB] @ ''TRUE'' @ [TAB] @ ''/'' @ [TAB] @ ''FALSE'' @ [TAB] @ ''1'' @ [TAB] @
         ''a'' @ [TAB] @ ''1'' @ [TAB] @
         ''d'' @ [TAB] @ ''TRUE'' @ [TAB] @ ''/'' @ [TAB] @ ''FALSE'' @ [TAB] @ ''2'' @ [TAB] @
         ''b'' @ [TAB] @ ''2'' @ [TAB])
   \<and> load_from_file 64
       (Some (memo @
         ''d'' @ [TAB] @ ''TRUE'' @ [TAB] @ ''/'' @ [TAB] @ ''FALSE'' @ [TAB] @ ''1'' @ [TAB] @
         ''a'' @ [TAB] @ ''1'' @ [TAB] @
         ''d'' @ [TAB] @ ''TRUE'' @ [TAB] @ ''/'' @ [TAB] @ ''FALSE'' @ [TAB] @ ''2'' @ [TAB] @
         ''b'' @ [TAB] @ ''2'' @ [TAB]))
       cookies_init
     = Loaded
         \<lparr>m_cookies =
            [\<lparr>name = ''a'', value_c = ''1'', domain = ''d'', path = ''/'', expires = At 1000000,
              httponly = False, secure = False\<rparr>],
          m_default_domain = []\<rparr>"
  by (simp add: save_to_file_def save_cookie_eq show_int_1 show_int_2 f_write_def
      load_from_file_def load_lines_memo trim_def is_space_def split_def line_cookie_def at_def
      cookie_t_init_def cookies_init_def push_back_def from_time_t_def atol_def is_digit_def
      LONG_MAX_def LONG_MIN_def)

text \<open>
  A record that never expires is written with the time 0 and read back as expiring at the
  epoch.
\<close>

lemma load_saved_no_expiry:
  "save_to_file True 0
     \<lparr>m_cookies = [cookie_t_init\<lparr>name := ''a'', value_c := ''1'', domain := ''d'', path := ''/''\<rparr>],
      m_default_domain = []\<rparr> []
     = Inr (memo @
         ''d'' @ [TAB] @ ''TRUE'' @ [TAB] @ ''/'' @ [TAB] @ ''FALSE'' @ [TAB] @ ''0'' @ [TAB] @
         ''a'' @ [TAB] @ ''1'' @ [TAB])
   \<and> load_from_file long_bits
       (Some (memo @
         ''d'' @ [TAB] @ ''TRUE'' @ [TAB] @ ''/'' @ [TAB] @ ''FALSE'' @ [TAB] @ ''0'' @ [TAB] @
         ''a'' @ [TAB] @ ''1'' @ [TAB]))
       cookies_init
     = Loaded
         \<lparr>m_cookies =
            [\<lparr>name = ''a'', value_c = ''1'', domain = ''d'', path = ''/'', expires = At 0,
              httponly = False, secure = False\<rparr>],
          m_default_domain = []\<rparr>"
  by (simp add: save_to_file_def save_cookie_eq show_int_0 f_write_def
      load_from_file_def load_lines_memo trim_def is_space_def split_def line_cookie_def at_def
      cookie_t_init_def cookies_init_def push_back_def from_time_t_def atol_0)

text \<open>
  A value that ends with a space (the parser returns such a value for \<open>a=v \<close>) comes back
  without it: the line is trimmed before it is split.
\<close>

lemma load_saved_trimmed_value:
  "save_to_file True 0
     \<lparr>m_cookies =
        [\<lparr>name = ''a'', value_c = ''v '', domain = ''d'', path = ''/'', expires = At 0,
          httponly = False, secure = False\<rparr>],
      m_default_domain = []\<rparr> []
     = Inr (memo @
         ''d'' @ [TAB] @ ''TRUE'' @ [TAB] @ ''/'' @ [TAB] @ ''FALSE'' @ [TAB] @ ''0'' @ [TAB] @
         ''a'' @ [TAB] @ ''v '' @ [TAB])
   \<and> load_from_file long_bits
       (Some (memo @
         ''d'' @ [TAB] @ ''TRUE'' @ [TAB] @ ''/'' @ [TAB] @ ''FALSE'' @ [TAB] @ ''0'' @ [TAB] @
         ''a'' @ [TAB] @ ''v '' @ [TAB]))
       cookies_init
     = Loaded
         \<lparr>m_cookies =
            [\<lparr>name = ''a'', value_c = ''v'', domain = ''d'', path = ''/'', expires = At 0,
              httponly = False, secure = False\<rparr>],
          m_default_domain = []\<rparr>"
  by (simp add: save_to_file_def save_cookie_eq show_int_0 f_write_def
      load_from_file_def load_lines_memo trim_def is_space_def split_def line_cookie_def at_def
      cookie_t_init_def cookies_init_def push_back_def from_time_t_def atol_0)

text \<open>
  The record of \<open>operator()("a", "1")\<close>, written with no default domain, has an empty
  domain and an empty path: runs of tabs count as one separator, the line has five fields,
  and reading it back is an out-of-range read.
\<close>

lemma load_saved_default_record:
  "save_to_file True 0 (insert_name_value ''a'' ''1'' cookies_init) []
     = Inr (memo @ [TAB] @ ''FALSE'' @ [TAB] @ [TAB] @ ''FALSE'' @ [TAB] @ ''0'' @ [TAB] @
            ''a'' @ [TAB] @ ''1'' @ [TAB])
   \<and> load_from_file long_bits
       (Some (memo @ [TAB] @ ''FALSE'' @ [TAB] @ [TAB] @ ''FALSE'' @ [TAB] @ ''0'' @ [TAB] @
              ''a'' @ [TAB] @ ''1'' @ [TAB]))
       cookies_init
     = Undefined_read cookies_init"
  by (simp add: save_to_file_def save_cookie_eq show_int_0 f_write_def
      load_from_file_def load_lines_memo trim_def is_space_def split_def line_cookie_def at_def
      cookie_t_init_def cookies_init_def push_back_def insert_name_value_def)

text \<open>
  One record alone does come back. For a store of one record whose domain, path, name and
  value are plain, whose domain does not begin with white space or \<open>#\<close>, whose value
  does not end with white space and whose expiry is a time whose seconds fit a \<open>long\<close>,
  \<open>save_to_file\<close> into a new file succeeds and \<open>load_from_file\<close> of what it wrote appends
  one record with the same domain, path, secure flag, name and value and with the expiry
  cut to the whole second.
\<close>

theorem load_saved_record:
  assumes "m_cookies S = [c]"
    and "plain_field (domain c)" "plain_field (path c)" "plain_field (name c)"
      "plain_field (value_c c)"
    and "\<not> is_space (hd (domain c))" "hd (domain c) \<noteq> CHR ''#''"
    and "\<not> is_space (last (value_c c))"
    and "expires c = At us"
    and "LONG_MIN long_bits \<le> us div 1000000" "us div 1000000 \<le> LONG_MAX long_bits"
  shows "\<exists>bytes. save_to_file True 0 S dd = Inr bytes \<and>
           load_from_file long_bits (Some bytes) s0
           = Loaded (push_back
               (cookie_t_init\<lparr>domain := domain c, path := path c, secure := secure c,
                  expires := At (us div 1000000 * 1000000), name := name c,
                  value_c := value_c c\<rparr>) s0)"
proof -
  have "save_to_file True 0 S dd = Inr (memo @ save_cookie dd c [])"
    using assms(1) by (simp add: save_to_file_def f_write_def save_cookie_eq)
  moreover have "load_from_file long_bits (Some (memo @ save_cookie dd c [])) s0
      = Loaded (push_back
               (cookie_t_init\<lparr>domain := domain c, path := path c, secure := secure c,
                  expires := At (us div 1000000 * 1000000), name := name c,
                  value_c := value_c c\<rparr>) s0)"
    using load_line_cookie [OF assms(2-11)] by (simp add: load_from_file_def load_lines_memo)
  ultimately show ?thesis by blast
qed

text \<open>A record that expires 1.5 seconds after the epoch comes back with 1 second.\<close>

theorem load_saved_record_witness:
  "\<exists>bytes.
     save_to_file True 0
       \<lparr>m_cookies =
          [\<lparr>name = ''a'', value_c = ''1'', domain = ''d'', path = ''/'', expires = At 1500000,
            httponly = True, secure = True\<rparr>],
        m_default_domain = []\<rparr> [] = Inr bytes
     \<and> load_from_file 64 (Some bytes) cookies_init
       = Loaded
           \<lparr>m_cookies =
              [\<lparr>name = ''a'', value_c = ''1'', domain = ''d'', path = ''/'', expires = At 1000000,
                httponly = False, secure = True\<rparr>],
            m_default_domain = []\<rparr>"
proof -
  let ?c = "\<lparr>name = ''a'', value_c = ''1'', domain = ''d'', path = ''/'', expires = At 1500000,
            httponly = True, secure = True\<rparr>"
  let ?S = "\<lparr>m_cookies = [?c], m_default_domain = []\<rparr>"
  have 1: "m_cookies ?S = [?c]" by simp
  have 2: "plain_field (domain ?c)" "plain_field (path ?c)" "plain_field (name ?c)"
    "plain_field (value_c ?c)"
    by (simp_all add: plain_field_def)
  have 3: "\<not> is_space (hd (domain ?c))" "hd (domain ?c) \<noteq> CHR ''#''"
    "\<not> is_space (last (value_c ?c))"
    by (simp_all add: is_space_def)
  have 4: "expires ?c = At 1500000" by simp
  have 5: "LONG_MIN 64 \<le> 1500000 div 1000000" "1500000 div 1000000 \<le> LONG_MAX 64"
    by (simp_all add: LONG_MIN_def LONG_MAX_def)
  from load_saved_record [OF 1 2 3 4 5, of "[]" cookies_init] show ?thesis
    by (simp add: push_back_def cookies_init_def cookie_t_init_def)
qed

end
